theory Spec2Isabelle
  imports Main "HOL-Library.Sublist" "HOL-Library.AList"
begin

section \<open>Python strings\<close>

text \<open>
  A Python \<open>str\<close> is modelled as a \<open>string\<close>: one \<open>char\<close> per code point. The
  characters below \<open>CHR 0xFF\<close> stand for the code points U+0000 to U+00FE, and the last
  character, \<open>CHR 0xFF\<close>, stands for the byte-order mark U+FEFF, which the importers treat
  specially. (U+00FF and the code points from U+0100 on, other than U+FEFF, are outside the
  model.) \<open>length\<close> is Python's \<open>len\<close>, \<open>take n\<close> is the slice \<open>s[:n]\<close>. Characters that
  cannot be written inside a string literal get a name.
\<close>

abbreviation dquote :: char where "dquote \<equiv> CHR 0x22"
abbreviation backslash :: char where "backslash \<equiv> CHR 0x5C"
abbreviation newline :: char where "newline \<equiv> CHR 0x0A"
abbreviation carriage_return :: char where "carriage_return \<equiv> CHR 0x0D"
abbreviation lbrace :: char where "lbrace \<equiv> CHR 0x7B"
abbreviation rbrace :: char where "rbrace \<equiv> CHR 0x7D"
abbreviation dollar :: char where "dollar \<equiv> CHR 0x24"
abbreviation bom :: char where "bom \<equiv> CHR 0xFF"

text \<open>
  \<open>str.replace(old, new)\<close>: the occurrences of \<open>old\<close> are found from left to right and do
  not overlap; the scan resumes after each replaced occurrence, so text that was inserted is
  never looked at again. With an empty \<open>old\<close>, Python inserts \<open>new\<close> before every character
  and at the end.
\<close>

function replace_scan :: "string \<Rightarrow> string \<Rightarrow> string \<Rightarrow> string" where
  "replace_scan old new [] = []"
| "replace_scan old new (c # cs) =
     (if old \<noteq> [] \<and> prefix old (c # cs)
      then new @ replace_scan old new (drop (length old) (c # cs))
      else c # replace_scan old new cs)"
  by pat_completeness auto
termination
  by (relation "measure (\<lambda>(old, new, s). length s)") (auto simp: neq_Nil_conv)

definition replace :: "string \<Rightarrow> string \<Rightarrow> string \<Rightarrow> string" where
  "replace old new s =
     (if old = [] then new @ concat (map (\<lambda>c. c # new) s) else replace_scan old new s)"

text \<open>\<open>s.split(sep)\<close> for a one-character separator; the result is never empty.\<close>

fun split_on :: "char \<Rightarrow> string \<Rightarrow> string list" where
  "split_on sep [] = [[]]"
| "split_on sep (c # cs) =
     (if c = sep then [] # split_on sep cs
      else (let r = split_on sep cs in (c # hd r) # tl r))"

text \<open>
  \<open>str.isspace\<close> on the modelled code points: TAB to CR, FS to US, space, NEL and the
  no-break space; the byte-order mark is not a space. \<open>str.strip()\<close> removes such
  characters at both ends.
\<close>

definition is_space :: "char \<Rightarrow> bool" where
  "is_space c =
     (let n = (of_char c :: nat)
      in (9 \<le> n \<and> n \<le> 13) \<or> (28 \<le> n \<and> n \<le> 31) \<or> n = 32 \<or> n = 133 \<or> n = 160)"

definition strip :: "string \<Rightarrow> string" where
  "strip s = rev (dropWhile is_space (rev (dropWhile is_space s)))"

text \<open>\<open>s.lstrip('\ufeff')\<close> removes every byte-order mark at the head of \<open>s\<close>.\<close>

definition lstrip_bom :: "string \<Rightarrow> string" where
  "lstrip_bom s = dropWhile (\<lambda>c. c = bom) s"

text \<open>\<open>needle in s\<close>: the substring test.\<close>

fun occurs_in :: "string \<Rightarrow> string \<Rightarrow> bool" where
  "occurs_in p [] = (p = [])"
| "occurs_in p (c # cs) = (prefix p (c # cs) \<or> occurs_in p cs)"

section \<open>Recovery of the delimited payload from a rich-text file\<close>

text \<open>
  \<open>RTFKnowledgeGraphImporter.extract_csv_from_rtf\<close>. The function is modelled on the text of
  the file (\<open>content = f.read()\<close>).

  The pattern is \<open>\\strokec2 (.+?)}\<close> with \<open>re.DOTALL\<close>: the marker \<open>\strokec2\<close> and a space,
  then a group of at least one arbitrary character, as short as possible, then a closing
  brace. \<open>match_at s\<close> is the attempt to match at the start of \<open>s\<close>: the first character after
  the marker always belongs to the group, the group ends before the first closing brace
  after it. The whole match is the marker, the group and the brace.
  \<open>findall\<close> is \<open>re.findall\<close>: the leftmost match, then the search goes on behind it.
\<close>

definition marker :: string where
  "marker = backslash # ''strokec2 ''"

definition match_at :: "string \<Rightarrow> string option" where
  "match_at s =
     (if prefix marker s then
        (case drop (length marker) s of
           [] \<Rightarrow> None
         | c # r \<Rightarrow>
             if rbrace \<in> set r
             then Some (c # takeWhile (\<lambda>x. x \<noteq> rbrace) r)
             else None)
      else None)"

function findall :: "string \<Rightarrow> string list" where
  "findall [] = []"
| "findall (c # cs) =
     (case match_at (c # cs) of
        Some g \<Rightarrow> g # findall (drop (length marker + length g + 1) (c # cs))
      | None \<Rightarrow> findall cs)"
  by pat_completeness auto
termination
  by (relation "measure length") auto

text \<open>
  The branch \<open>if matches:\<close> works on \<open>matches[0]\<close> alone: every backslash becomes a
  newline, braces are deleted, the text is trimmed and split at newlines, and the trimmed
  non-blank lines are returned.
\<close>

definition payload_lines :: "string \<Rightarrow> string list" where
  "payload_lines csv_content =
     (let csv_content1 = replace [backslash] [newline] csv_content;
          csv_content2 = filter (\<lambda>c. c \<noteq> lbrace \<and> c \<noteq> rbrace) csv_content1
      in map strip (filter (\<lambda>line. strip line \<noteq> [])
           (split_on newline (strip csv_content2))))"

definition extract_csv_from_rtf :: "string \<Rightarrow> string list" where
  "extract_csv_from_rtf content =
     (case findall content of
        [] \<Rightarrow> []
      | csv_content # _ \<Rightarrow> payload_lines csv_content)"


section \<open>Python values\<close>

text \<open>
  The values that reach the code: the cells of a table row and the replies of the graph
  server are strings, integers, \<open>None\<close> or lists of such values. A dictionary is an
  association list in insertion order with distinct keys; \<open>d[k] = v\<close> is \<open>AList.update\<close>.
\<close>

datatype pyval = VStr string | VInt int | VNone | VList "pyval list"

type_synonym pydict = "(pyval \<times> pyval) list"

datatype py_error =
    KeyError pyval
  | ValueError
  | TypeError
  | AttributeError
  | CsvError

text \<open>\<open>sep.join(xs)\<close>.\<close>

fun join :: "string \<Rightarrow> string list \<Rightarrow> string" where
  "join sep [] = []"
| "join sep [x] = x"
| "join sep (x # y # ys) = x @ sep @ join sep (y # ys)"

text \<open>\<open>str(i)\<close> for an integer: decimal digits, with a minus sign for negative numbers.\<close>

fun digits :: "nat \<Rightarrow> string" where
  "digits n =
     (if n < 10 then [char_of (48 + n)]
      else digits (n div 10) @ [char_of (48 + n mod 10)])"

declare digits.simps [simp del]

definition str_int :: "int \<Rightarrow> string" where
  "str_int i = (if i < 0 then CHR ''-'' # digits (nat (- i)) else digits (nat i))"

text \<open>
  \<open>repr(s)\<close> for a string: single quotes, unless the string holds a single quote and no
  double quote; the quote and the backslash are escaped, TAB, LF and CR are written
  \<open>\t\<close>, \<open>\n\<close>, \<open>\r\<close>, and a character that is not printable is written \<open>\xhh\<close>, or
  \<open>\ufeff\<close> for the byte-order mark. Among the modelled code points the non-printable
  ones are the control characters, U+007F to U+00A0, U+00AD and the byte-order mark.
\<close>

definition hex_digit :: "nat \<Rightarrow> char" where
  "hex_digit d = (if d < 10 then char_of (48 + d) else char_of (87 + d))"

definition repr_char :: "char \<Rightarrow> char \<Rightarrow> string" where
  "repr_char q c =
     (let n = (of_char c :: nat);
          hex = [backslash, CHR ''x'', hex_digit (n div 16), hex_digit (n mod 16)]
      in if c = q \<or> c = backslash then [backslash, c]
         else if n = 9 then [backslash, CHR ''t'']
         else if c = newline then [backslash, CHR ''n'']
         else if c = carriage_return then [backslash, CHR ''r'']
         else if n < 32 \<or> n = 127 then hex
         else if n < 127 then [c]
         else if n < 161 \<or> n = 173 then hex
         else if c = bom then backslash # ''ufeff''
         else [c])"

definition repr_str :: "string \<Rightarrow> string" where
  "repr_str s =
     (let q = (if CHR 0x27 \<in> set s \<and> dquote \<notin> set s then dquote else CHR 0x27)
      in q # concat (map (repr_char q) s) @ [q])"

fun py_repr :: "pyval \<Rightarrow> string" where
  "py_repr (VStr s) = repr_str s"
| "py_repr (VInt i) = str_int i"
| "py_repr VNone = ''None''"
| "py_repr (VList xs) = ''['' @ join '', '' (map py_repr xs) @ '']''"

text \<open>\<open>str(v)\<close>, which is also what an f-string inserts for \<open>{v}\<close>.\<close>

definition py_str :: "pyval \<Rightarrow> string" where
  "py_str v = (case v of VStr s \<Rightarrow> s | _ \<Rightarrow> py_repr v)"

text \<open>
  \<open>int(v)\<close>. For a string: a code point from U+007F on is first turned into a blank when
  it is a space (NEL and the no-break space among the modelled ones); any other one makes
  the string invalid. Then the ASCII whitespace (TAB to CR and the blank) is skipped at both
  ends, an optional sign is read, and decimal digits must follow, where single underscores
  may stand between digits. A string with more than 4300 digits is refused. Every failure is
  a \<open>ValueError\<close>. \<open>int(None)\<close> and \<open>int\<close> of a list raise \<open>TypeError\<close>.
\<close>

definition is_digit :: "char \<Rightarrow> bool" where
  "is_digit c = (48 \<le> (of_char c :: nat) \<and> (of_char c :: nat) \<le> 57)"

definition int_space :: "char \<Rightarrow> bool" where
  "int_space c =
     (let n = (of_char c :: nat)
      in (9 \<le> n \<and> n \<le> 13) \<or> n = 32 \<or> n = 133 \<or> n = 160)"

fun digit_run :: "bool \<Rightarrow> string \<Rightarrow> bool" where
  "digit_run after_digit [] = after_digit"
| "digit_run after_digit (c # r) =
     (if is_digit c then digit_run True r
      else if c = CHR ''_'' then after_digit \<and> r \<noteq> [] \<and> is_digit (hd r) \<and> digit_run False r
      else False)"

definition decimal_value :: "string \<Rightarrow> nat" where
  "decimal_value s = foldl (\<lambda>acc c. 10 * acc + (of_char c - 48)) 0 (filter is_digit s)"

definition int_of_str :: "string \<Rightarrow> py_error + int" where
  "int_of_str s =
     (let t = rev (dropWhile int_space (rev (dropWhile int_space s)));
          neg = (t \<noteq> [] \<and> hd t = CHR ''-'');
          body = (if t \<noteq> [] \<and> (hd t = CHR ''-'' \<or> hd t = CHR ''+'') then tl t else t)
      in if digit_run False body \<and> int (length (filter is_digit body)) \<le> 4300
         then Inr ((if neg then - 1 else 1) * int (decimal_value body))
         else Inl ValueError)"

fun py_int :: "pyval \<Rightarrow> py_error + int" where
  "py_int (VStr s) = int_of_str s"
| "py_int (VInt i) = Inr i"
| "py_int VNone = Inl TypeError"
| "py_int (VList xs) = Inl TypeError"

text \<open>\<open>d[k]\<close> raises \<open>KeyError\<close> for a missing key.\<close>

definition dict_get :: "pydict \<Rightarrow> pyval \<Rightarrow> py_error + pyval" where
  "dict_get d k = (case map_of d k of None \<Rightarrow> Inl (KeyError k) | Some v \<Rightarrow> Inr v)"

section \<open>Rendering a query\<close>

text \<open>
  The parameters of a query are a dictionary from names to values:
  an association list in insertion order, with distinct names.
\<close>

type_synonym params = "(string \<times> pyval) list"

subsection \<open>The rich-text importer: substitution into the template\<close>

text \<open>
  \<open>RTFKnowledgeGraphImporter.execute_cypher\<close>, the part before the query is sent.
  \<open>sorted(params.items(), key=lambda x: len(x[0]), reverse=True)\<close> is a stable sort:
  the list is reversed, sorted in ascending order and reversed again, so entries with
  names of the same length keep the order of the dictionary.
\<close>

definition sorted_params :: "params \<Rightarrow> params" where
  "sorted_params ps = rev (sort_key (\<lambda>x. length (fst x)) (rev ps))"

definition escaped_value :: "string \<Rightarrow> string" where
  "escaped_value v =
     replace [carriage_return] [backslash, CHR ''r'']
       (replace [newline] [backslash, CHR ''n'']
          (replace [dquote] [backslash, dquote] v))"

text \<open>The text that takes the place of \<open>$key\<close>.\<close>

definition literal_rtf :: "pyval \<Rightarrow> string" where
  "literal_rtf v =
     (case v of
        VStr s \<Rightarrow> [dquote] @ escaped_value s @ [dquote]
      | _ \<Rightarrow> py_str v)"

fun substitute :: "params \<Rightarrow> string \<Rightarrow> string" where
  "substitute [] query = query"
| "substitute ((key, v) # rest) query =
     substitute rest (replace (dollar # key) (literal_rtf v) query)"

definition render_rtf :: "string \<Rightarrow> params option \<Rightarrow> string" where
  "render_rtf query params =
     (case params of None \<Rightarrow> query | Some ps \<Rightarrow> substitute (sorted_params ps) query)"

subsection \<open>The plain-file importer: a parameter header\<close>

text \<open>
  \<open>KnowledgeGraphImporter.execute_cypher\<close> leaves the template as it is and puts
  \<open>CYPHER name=value ...\<close> in front of it, in the order of the dictionary.
\<close>

definition format_param :: "string \<times> pyval \<Rightarrow> string" where
  "format_param kv =
     (case kv of (key, v) \<Rightarrow>
        (case v of
           VStr s \<Rightarrow> key @ ''='' @ [dquote] @ s @ [dquote]
         | VList xs \<Rightarrow> key @ ''='' @ [dquote] @ join '','' (map py_str xs) @ [dquote]
         | _ \<Rightarrow> key @ ''='' @ py_str v))"

definition render_csv :: "string \<Rightarrow> params option \<Rightarrow> string" where
  "render_csv query params =
     (case params of
        None \<Rightarrow> query
      | Some ps \<Rightarrow> ''CYPHER '' @ join '' '' (map format_param ps) @ '' '' @ query)"

section \<open>The import loops\<close>

subsection \<open>The importer and the outside world\<close>

text \<open>
  Both importer classes keep the name of the graph and the dictionary \<open>stats\<close>: five
  counters and the list of error messages.
\<close>

record importer =
  graph_name :: string
  business_segments :: int
  task_templates :: int
  workflow_templates :: int
  used_in_relationships :: int
  depends_on_relationships :: int
  errors :: "string list"

text \<open>
  The graph server is reached by \<open>redis_client.execute_command('GRAPH.QUERY', graph, query)\<close>.
  It either returns a reply or raises; what it does may depend on everything it has received
  before. \<open>server env history command\<close> is the message of the exception (\<open>str(e)\<close>) or the
  reply. \<open>clock env n\<close> is the text of \<open>datetime.now().isoformat()\<close> at the \<open>n\<close>-th reading of
  the clock. The state of the world is what has been sent so far and how often the clock
  has been read.
\<close>

type_synonym command = "string \<times> string"

record env =
  server :: "command list \<Rightarrow> command \<Rightarrow> string + pyval"
  clock :: "nat \<Rightarrow> string"

record world =
  sent :: "command list"
  ticks :: nat

subsection \<open>Sending a query\<close>

text \<open>
  \<open>execute_cypher\<close> of the rich-text importer. Rendering cannot raise, so the only exception
  the \<open>try\<close> block can see comes from the server. The handler records the first 100
  characters of \<open>query\<close>, which by then is the rendered text, and returns \<open>[]\<close>.
\<close>

definition execute_cypher_rtf ::
  "env \<Rightarrow> string \<Rightarrow> params option \<Rightarrow> importer \<times> world \<Rightarrow> pyval \<times> importer \<times> world" where
  "execute_cypher_rtf env query params s =
     (case s of (imp, w) \<Rightarrow>
        (let query1 = render_rtf query params;
             cmd = (graph_name imp, query1);
             w1 = w\<lparr>sent := sent w @ [cmd]\<rparr>
         in case server env (sent w) cmd of
              Inr result \<Rightarrow> (result, imp, w1)
            | Inl e \<Rightarrow>
                (let error_msg = ''Query failed: '' @ e
                 in (VList [],
                     imp\<lparr>errors := errors imp @
                        [''Query error: '' @ take 100 query1 @ '' ... - '' @ error_msg]\<rparr>,
                     w1))))"

text \<open>
  \<open>execute_cypher\<close> of the plain-file importer. The handler records the first 100 characters
  of \<open>query\<close>, which here is still the template.
\<close>

definition execute_cypher_csv ::
  "env \<Rightarrow> string \<Rightarrow> params option \<Rightarrow> importer \<times> world \<Rightarrow> pyval \<times> importer \<times> world" where
  "execute_cypher_csv env query params s =
     (case s of (imp, w) \<Rightarrow>
        (let query_with_params = render_csv query params;
             cmd = (graph_name imp, query_with_params);
             w1 = w\<lparr>sent := sent w @ [cmd]\<rparr>
         in case server env (sent w) cmd of
              Inr result \<Rightarrow> (result, imp, w1)
            | Inl e \<Rightarrow>
                (VList [],
                 imp\<lparr>errors := errors imp @
                    [''Query error: '' @ take 100 query @ ''... - '' @ e]\<rparr>,
                 w1)))"

subsection \<open>The five tables\<close>

text \<open>
  The five import methods of each class have the same shape: for every row, build the
  parameter dictionary from the columns of the row, send the table's template, add one to
  the table's counter, print a progress line. They differ in the template, the columns, the
  counter and the progress line, which is what the functions below give per table.
\<close>

datatype table = BusinessSegments | TaskTemplates | WorkflowTemplates | UsedIn | DependsOn

datatype coltype = Text | Integer

text \<open>
  The entries of the dictionary \<open>params\<close> in their order, without the last one
  (\<open>created_at\<close>): \<open>Text\<close> stands for \<open>row[name]\<close> and \<open>Integer\<close> for \<open>int(row[name])\<close>.
  Every parameter is read from the column of the same name.
\<close>

fun columns :: "table \<Rightarrow> (string \<times> coltype) list" where
  "columns BusinessSegments =
      [(''segment_id'', Text), (''segment_name'', Text), (''description'', Text),
       (''version'', Text), (''node_type'', Text)]"
| "columns TaskTemplates =
      [(''node_id'', Text), (''node_type'', Text), (''segment_id'', Text),
       (''role'', Text), (''workflow_name'', Text), (''characteristic'', Text),
       (''prompt'', Text), (''pain_point_need'', Text), (''artifacts'', Text),
       (''keywords_phrases'', Text), (''outcomes'', Text), (''prompt_flexibility'', Text),
       (''instruction_with_example'', Text), (''example_straightforward'', Text),
       (''example_complex'', Text), (''example_enterprise'', Text)]"
| "columns WorkflowTemplates =
      [(''workflow_id'', Text), (''node_type'', Text), (''segment_id'', Text),
       (''workflow_name'', Text), (''description'', Text), (''business_value'', Text),
       (''total_tasks'', Integer), (''involved_roles'', Text), (''complexity_level'', Text)]"
| "columns UsedIn =
      [(''source_node_id'', Text), (''target_node_id'', Text),
       (''relationship_type'', Text), (''sequence_position'', Text),
       (''priority_score'', Integer), (''notification_trigger'', Text),
       (''visibility_roles'', Text)]"
| "columns DependsOn =
      [(''source_node_id'', Text), (''target_node_id'', Text),
       (''relationship_type'', Text), (''workflow_context'', Text),
       (''dependency_type'', Text), (''priority_score'', Integer)]"

text \<open>The templates of the rich-text importer (a block indented by 12 blanks).\<close>

fun query_template_rtf :: "table \<Rightarrow> string" where
  "query_template_rtf BusinessSegments =
     ''\<newline>'' @
     ''            CREATE (bs:BUSINESS_SEGMENT {\<newline>'' @
     ''                segment_id: $segment_id,\<newline>'' @
     ''                segment_name: $segment_name,\<newline>'' @
     ''                description: $description,\<newline>'' @
     ''                version: $version,\<newline>'' @
     ''                node_type: $node_type,\<newline>'' @
     ''                created_at: $created_at\<newline>'' @
     ''            })\<newline>'' @
     ''            ''"
| "query_template_rtf TaskTemplates =
     ''\<newline>'' @
     ''            CREATE (tt:TASK_TEMPLATE {\<newline>'' @
     ''                node_id: $node_id,\<newline>'' @
     ''                node_type: $node_type,\<newline>'' @
     ''                segment_id: $segment_id,\<newline>'' @
     ''                role: $role,\<newline>'' @
     ''                workflow_name: $workflow_name,\<newline>'' @
     ''                characteristic: $characteristic,\<newline>'' @
     ''                prompt: $prompt,\<newline>'' @
     ''                pain_point_need: $pain_point_need,\<newline>'' @
     ''                artifacts: $artifacts,\<newline>'' @
     ''                keywords_phrases: $keywords_phrases,\<newline>'' @
     ''                outcomes: $outcomes,\<newline>'' @
     ''                prompt_flexibility: $prompt_flexibility,\<newline>'' @
     ''                instruction_with_example: $instruction_with_example,\<newline>'' @
     ''                example_straightforward: $example_straightforward,\<newline>'' @
     ''                example_complex: $example_complex,\<newline>'' @
     ''                example_enterprise: $example_enterprise,\<newline>'' @
     ''                created_at: $created_at\<newline>'' @
     ''            })\<newline>'' @
     ''            ''"
| "query_template_rtf WorkflowTemplates =
     ''\<newline>'' @
     ''            CREATE (wt:WORKFLOW_TEMPLATE {\<newline>'' @
     ''                workflow_id: $workflow_id,\<newline>'' @
     ''                node_type: $node_type,\<newline>'' @
     ''                segment_id: $segment_id,\<newline>'' @
     ''                workflow_name: $workflow_name,\<newline>'' @
     ''                description: $description,\<newline>'' @
     ''                business_value: $business_value,\<newline>'' @
     ''                total_tasks: $total_tasks,\<newline>'' @
     ''                involved_roles: $involved_roles,\<newline>'' @
     ''                complexity_level: $complexity_level,\<newline>'' @
     ''                created_at: $created_at\<newline>'' @
     ''            })\<newline>'' @
     ''            ''"
| "query_template_rtf UsedIn =
     ''\<newline>'' @
     ''            MATCH (tt:TASK_TEMPLATE {node_id: $source_node_id})\<newline>'' @
     ''            MATCH (wt:WORKFLOW_TEMPLATE {workflow_id: $target_node_id})\<newline>'' @
     ''            CREATE (tt)-[r:USED_IN {\<newline>'' @
     ''                relationship_type: $relationship_type,\<newline>'' @
     ''                sequence_position: $sequence_position,\<newline>'' @
     ''                priority_score: $priority_score,\<newline>'' @
     ''                notification_trigger: $notification_trigger,\<newline>'' @
     ''                visibility_roles: $visibility_roles,\<newline>'' @
     ''                created_at: $created_at\<newline>'' @
     ''            }]->(wt)\<newline>'' @
     ''            ''"
| "query_template_rtf DependsOn =
     ''\<newline>'' @
     ''            MATCH (tt1:TASK_TEMPLATE {node_id: $source_node_id})\<newline>'' @
     ''            MATCH (tt2:TASK_TEMPLATE {node_id: $target_node_id})\<newline>'' @
     ''            CREATE (tt1)-[r:DEPENDS_ON {\<newline>'' @
     ''                relationship_type: $relationship_type,\<newline>'' @
     ''                workflow_context: $workflow_context,\<newline>'' @
     ''                dependency_type: $dependency_type,\<newline>'' @
     ''                priority_score: $priority_score,\<newline>'' @
     ''                created_at: $created_at\<newline>'' @
     ''            }]->(tt2)\<newline>'' @
     ''            ''"


text \<open>The templates of the plain-file importer (a block indented by 16 blanks).\<close>

fun query_template_csv :: "table \<Rightarrow> string" where
  "query_template_csv BusinessSegments =
     ''\<newline>'' @
     ''                CREATE (bs:BUSINESS_SEGMENT {\<newline>'' @
     ''                    segment_id: $segment_id,\<newline>'' @
     ''                    segment_name: $segment_name,\<newline>'' @
     ''                    description: $description,\<newline>'' @
     ''                    version: $version,\<newline>'' @
     ''                    node_type: $node_type,\<newline>'' @
     ''                    created_at: $created_at\<newline>'' @
     ''                })\<newline>'' @
     ''                ''"
| "query_template_csv TaskTemplates =
     ''\<newline>'' @
     ''                CREATE (tt:TASK_TEMPLATE {\<newline>'' @
     ''                    node_id: $node_id,\<newline>'' @
     ''                    node_type: $node_type,\<newline>'' @
     ''                    segment_id: $segment_id,\<newline>'' @
     ''                    role: $role,\<newline>'' @
     ''                    workflow_name: $workflow_name,\<newline>'' @
     ''                    characteristic: $characteristic,\<newline>'' @
     ''                    prompt: $prompt,\<newline>'' @
     ''                    pain_point_need: $pain_point_need,\<newline>'' @
     ''                    artifacts: $artifacts,\<newline>'' @
     ''                    keywords_phrases: $keywords_phrases,\<newline>'' @
     ''                    outcomes: $outcomes,\<newline>'' @
     ''                    prompt_flexibility: $prompt_flexibility,\<newline>'' @
     ''                    instruction_with_example: $instruction_with_example,\<newline>'' @
     ''                    example_straightforward: $example_straightforward,\<newline>'' @
     ''                    example_complex: $example_complex,\<newline>'' @
     ''                    example_enterprise: $example_enterprise,\<newline>'' @
     ''                    created_at: $created_at\<newline>'' @
     ''                })\<newline>'' @
     ''                ''"
| "query_template_csv WorkflowTemplates =
     ''\<newline>'' @
     ''                CREATE (wt:WORKFLOW_TEMPLATE {\<newline>'' @
     ''                    workflow_id: $workflow_id,\<newline>'' @
     ''                    node_type: $node_type,\<newline>'' @
     ''                    segment_id: $segment_id,\<newline>'' @
     ''                    workflow_name: $workflow_name,\<newline>'' @
     ''                    description: $description,\<newline>'' @
     ''                    business_value: $business_value,\<newline>'' @
     ''                    total_tasks: $total_tasks,\<newline>'' @
     ''                    involved_roles: $involved_roles,\<newline>'' @
     ''                    complexity_level: $complexity_level,\<newline>'' @
     ''                    created_at: $created_at\<newline>'' @
     ''                })\<newline>'' @
     ''                ''"
| "query_template_csv UsedIn =
     ''\<newline>'' @
     ''                MATCH (tt:TASK_TEMPLATE {node_id: $source_node_id})\<newline>'' @
     ''                MATCH (wt:WORKFLOW_TEMPLATE {workflow_id: $target_node_id})\<newline>'' @
     ''                CREATE (tt)-[r:USED_IN {\<newline>'' @
     ''                    relationship_type: $relationship_type,\<newline>'' @
     ''                    sequence_position: $sequence_position,\<newline>'' @
     ''                    priority_score: $priority_score,\<newline>'' @
     ''                    notification_trigger: $notification_trigger,\<newline>'' @
     ''                    visibility_roles: $visibility_roles,\<newline>'' @
     ''                    created_at: $created_at\<newline>'' @
     ''                }]->(wt)\<newline>'' @
     ''                ''"
| "query_template_csv DependsOn =
     ''\<newline>'' @
     ''                MATCH (tt1:TASK_TEMPLATE {node_id: $source_node_id})\<newline>'' @
     ''                MATCH (tt2:TASK_TEMPLATE {node_id: $target_node_id})\<newline>'' @
     ''                CREATE (tt1)-[r:DEPENDS_ON {\<newline>'' @
     ''                    relationship_type: $relationship_type,\<newline>'' @
     ''                    workflow_context: $workflow_context,\<newline>'' @
     ''                    dependency_type: $dependency_type,\<newline>'' @
     ''                    priority_score: $priority_score,\<newline>'' @
     ''                    created_at: $created_at\<newline>'' @
     ''                }]->(tt2)\<newline>'' @
     ''                ''"

text \<open>\<open>self.stats[...] += 1\<close> and the counter it changes.\<close>

fun bump :: "table \<Rightarrow> importer \<Rightarrow> importer" where
  "bump BusinessSegments imp = imp\<lparr>business_segments := business_segments imp + 1\<rparr>"
| "bump TaskTemplates imp = imp\<lparr>task_templates := task_templates imp + 1\<rparr>"
| "bump WorkflowTemplates imp = imp\<lparr>workflow_templates := workflow_templates imp + 1\<rparr>"
| "bump UsedIn imp = imp\<lparr>used_in_relationships := used_in_relationships imp + 1\<rparr>"
| "bump DependsOn imp = imp\<lparr>depends_on_relationships := depends_on_relationships imp + 1\<rparr>"

fun counter :: "table \<Rightarrow> importer \<Rightarrow> int" where
  "counter BusinessSegments imp = business_segments imp"
| "counter TaskTemplates imp = task_templates imp"
| "counter WorkflowTemplates imp = workflow_templates imp"
| "counter UsedIn imp = used_in_relationships imp"
| "counter DependsOn imp = depends_on_relationships imp"

text \<open>
  Building \<open>params\<close>: the entries are evaluated in order, and the first \<open>KeyError\<close>,
  \<open>ValueError\<close> or \<open>TypeError\<close> leaves the method, since no handler surrounds the loop.
\<close>

fun read_columns :: "(string \<times> coltype) list \<Rightarrow> pydict \<Rightarrow> py_error + params" where
  "read_columns [] row = Inr []"
| "read_columns ((name, ty) # cs) row =
     (case dict_get row (VStr name) of
        Inl e \<Rightarrow> Inl e
      | Inr v \<Rightarrow>
          (case (case ty of Text \<Rightarrow> Inr v | Integer \<Rightarrow> map_sum id VInt (py_int v)) of
             Inl e \<Rightarrow> Inl e
           | Inr v1 \<Rightarrow>
               (case read_columns cs row of
                  Inl e \<Rightarrow> Inl e
                | Inr ps \<Rightarrow> Inr ((name, v1) # ps))))"

text \<open>
  The progress line. The node tables print fields of the row; \<open>row['workflow_name'][:50]\<close>
  raises \<open>TypeError\<close> when the cell is \<open>None\<close> (a row shorter than the header). The columns
  it reads have been read before, so no \<open>KeyError\<close> is possible here. The relationship
  tables print the counter.
\<close>

definition slice_50 :: "pydict \<Rightarrow> string \<Rightarrow> py_error option" where
  "slice_50 row name =
     (case map_of row (VStr name) of
        Some VNone \<Rightarrow> Some TypeError
      | Some (VInt i) \<Rightarrow> Some TypeError
      | _ \<Rightarrow> None)"

fun progress_line :: "table \<Rightarrow> pydict \<Rightarrow> py_error option" where
  "progress_line BusinessSegments row = None"
| "progress_line TaskTemplates row = slice_50 row ''workflow_name''"
| "progress_line WorkflowTemplates row = slice_50 row ''workflow_name''"
| "progress_line UsedIn row = None"
| "progress_line DependsOn row = None"

subsection \<open>The loop of the rich-text importer\<close>

text \<open>
  \<open>for row in csv_reader:\<close> of \<open>RTFKnowledgeGraphImporter.import_...\<close>, on the rows the
  reader yields. The result is the exception that left the loop, if any, and the state.
\<close>

fun import_rows_rtf ::
  "env \<Rightarrow> table \<Rightarrow> pydict list \<Rightarrow> importer \<times> world \<Rightarrow> py_error option \<times> importer \<times> world" where
  "import_rows_rtf env t [] s = (None, s)"
| "import_rows_rtf env t (row # rows) s =
     (case s of (imp, w) \<Rightarrow>
        (case read_columns (columns t) row of
           Inl e \<Rightarrow> (Some e, imp, w)
         | Inr ps \<Rightarrow>
             (let params = ps @ [(''created_at'', VStr (clock env (ticks w)))];
                  w1 = w\<lparr>ticks := ticks w + 1\<rparr>;
                  (result, imp2, w2) =
                     execute_cypher_rtf env (query_template_rtf t) (Some params) (imp, w1);
                  imp3 = bump t imp2
              in case progress_line t row of
                   Some e \<Rightarrow> (Some e, imp3, w2)
                 | None \<Rightarrow> import_rows_rtf env t rows (imp3, w2))))"

subsection \<open>The loop of the plain-file importer\<close>

text \<open>
  \<open>clean_row = {key.lstrip('\ufeff'): value for key, value in row.items()}\<close>: the items are
  entered one after the other under the stripped key. The key \<open>None\<close>, under which the
  reader files the surplus cells of a row longer than the header, has no \<open>lstrip\<close>:
  \<open>AttributeError\<close>.
\<close>

fun clean_items :: "pydict \<Rightarrow> pydict \<Rightarrow> py_error + pydict" where
  "clean_items [] clean = Inr clean"
| "clean_items ((key, v) # items) clean =
     (case key of
        VStr name \<Rightarrow> clean_items items (AList.update (VStr (lstrip_bom name)) v clean)
      | _ \<Rightarrow> Inl AttributeError)"

definition clean_row :: "pydict \<Rightarrow> py_error + pydict" where
  "clean_row row = clean_items row []"

fun import_rows_csv ::
  "env \<Rightarrow> table \<Rightarrow> pydict list \<Rightarrow> importer \<times> world \<Rightarrow> py_error option \<times> importer \<times> world" where
  "import_rows_csv env t [] s = (None, s)"
| "import_rows_csv env t (row # rows) s =
     (case s of (imp, w) \<Rightarrow>
        (case clean_row row of
           Inl e \<Rightarrow> (Some e, imp, w)
         | Inr clean \<Rightarrow>
             (case read_columns (columns t) clean of
                Inl e \<Rightarrow> (Some e, imp, w)
              | Inr ps \<Rightarrow>
                  (let params = ps @ [(''created_at'', VStr (clock env (ticks w)))];
                       w1 = w\<lparr>ticks := ticks w + 1\<rparr>;
                       (result, imp2, w2) =
                          execute_cypher_csv env (query_template_csv t) (Some params) (imp, w1);
                       imp3 = bump t imp2
                   in case progress_line t clean of
                        Some e \<Rightarrow> (Some e, imp3, w2)
                      | None \<Rightarrow> import_rows_csv env t rows (imp3, w2)))))"

subsection \<open>Vocabulary for the statements about the loops\<close>

text \<open>
  A row is attempted in full when its parameters can be built and its progress line can be
  printed; the plain-file importer also needs \<open>clean_row\<close> to succeed.
\<close>

definition attempted_rtf :: "table \<Rightarrow> pydict \<Rightarrow> bool" where
  "attempted_rtf t row =
     ((case read_columns (columns t) row of Inl e \<Rightarrow> False | Inr ps \<Rightarrow> True)
      \<and> progress_line t row = None)"

definition attempted_csv :: "table \<Rightarrow> pydict \<Rightarrow> bool" where
  "attempted_csv t row = (clean_row row = Inr row \<and> attempted_rtf t row)"

text \<open>
  The error lines a sequence of commands leaves behind, read off the server: one line for
  each command the server rejects, made of the first 100 characters of the query text and
  the message. The rich-text importer quotes the text it sent, the plain-file importer
  quotes the template.
\<close>

fun failures_rtf :: "env \<Rightarrow> command list \<Rightarrow> command list \<Rightarrow> string list" where
  "failures_rtf env history [] = []"
| "failures_rtf env history (c # cs) =
     (case server env history c of
        Inl e \<Rightarrow> [''Query error: '' @ take 100 (snd c) @ '' ... - Query failed: '' @ e]
      | Inr r \<Rightarrow> [])
     @ failures_rtf env (history @ [c]) cs"

fun failures_csv :: "env \<Rightarrow> string \<Rightarrow> command list \<Rightarrow> command list \<Rightarrow> string list" where
  "failures_csv env template history [] = []"
| "failures_csv env template history (c # cs) =
     (case server env history c of
        Inl e \<Rightarrow> [''Query error: '' @ take 100 template @ ''... - '' @ e]
      | Inr r \<Rightarrow> [])
     @ failures_csv env template (history @ [c]) cs"

text \<open>
  The commands a loop sends when every row is attempted: for each row the table's template,
  rendered with the row's parameters and the time of the next reading of the clock.
\<close>

fun commands_rtf :: "env \<Rightarrow> table \<Rightarrow> string \<Rightarrow> nat \<Rightarrow> pydict list \<Rightarrow> command list" where
  "commands_rtf env t graph n [] = []"
| "commands_rtf env t graph n (row # rows) =
     (case read_columns (columns t) row of
        Inl e \<Rightarrow> []
      | Inr ps \<Rightarrow>
          [(graph, render_rtf (query_template_rtf t)
                     (Some (ps @ [(''created_at'', VStr (clock env n))])))])
     @ commands_rtf env t graph (n + 1) rows"

fun commands_csv :: "env \<Rightarrow> table \<Rightarrow> string \<Rightarrow> nat \<Rightarrow> pydict list \<Rightarrow> command list" where
  "commands_csv env t graph n [] = []"
| "commands_csv env t graph n (row # rows) =
     (case read_columns (columns t) row of
        Inl e \<Rightarrow> []
      | Inr ps \<Rightarrow>
          [(graph, render_csv (query_template_csv t)
                     (Some (ps @ [(''created_at'', VStr (clock env n))])))])
     @ commands_csv env t graph (n + 1) rows"

text \<open>What a loop that is left by the exception \<open>e\<close> after the rows before returns.\<close>

definition stopped_by ::
  "py_error \<Rightarrow> py_error option \<times> importer \<times> world \<Rightarrow> py_error option \<times> importer \<times> world" where
  "stopped_by e r = (case r of (None, s) \<Rightarrow> (Some e, s) | (Some e1, s) \<Rightarrow> (Some e1, s))"

text \<open>
  For the examples: a server that accepts every command, a server that rejects the second
  command it receives, and a fresh importer.
\<close>

definition moody_env :: env where
  "moody_env =
     \<lparr>server = (\<lambda>history cmd. if length history = 1 then Inl ''timeout'' else Inr (VList [])),
      clock = (\<lambda>n. ''2024-01-01T00:00:00'')\<rparr>"


definition quiet_env :: env where
  "quiet_env = \<lparr>server = (\<lambda>history cmd. Inr (VList [])), clock = (\<lambda>n. ''2024-01-01T00:00:00'')\<rparr>"

definition fresh_importer :: importer where
  "fresh_importer =
     \<lparr>graph_name = ''default_db'', business_segments = 0, task_templates = 0,
      workflow_templates = 0, used_in_relationships = 0, depends_on_relationships = 0,
      errors = []\<rparr>"

definition fresh_world :: world where
  "fresh_world = \<lparr>sent = [], ticks = 0\<rparr>"

text \<open>A row of the \<open>USED_IN\<close> table with the given source and priority score.\<close>

definition used_in_row :: "string \<Rightarrow> string \<Rightarrow> pydict" where
  "used_in_row source score =
     [(VStr ''source_node_id'', VStr source), (VStr ''target_node_id'', VStr ''W1''),
      (VStr ''relationship_type'', VStr ''USED_IN''), (VStr ''sequence_position'', VStr ''1''),
      (VStr ''priority_score'', VStr score), (VStr ''notification_trigger'', VStr ''none''),
      (VStr ''visibility_roles'', VStr ''PRODM'')]"

section \<open>The read-only query interface\<close>

text \<open>
  \<open>KnowledgeGraphQuery.query\<close>. The reply of the server is an arbitrary value, so the
  operations on it are those of a dynamically typed language: \<open>len\<close> and iteration work on
  lists and strings and raise \<open>TypeError\<close> on integers and \<open>None\<close>; a list cannot be the key
  of a dictionary.
\<close>

fun py_len :: "pyval \<Rightarrow> py_error + nat" where
  "py_len (VStr s) = Inr (length s)"
| "py_len (VList xs) = Inr (length xs)"
| "py_len (VInt i) = Inl TypeError"
| "py_len VNone = Inl TypeError"

fun py_iter :: "pyval \<Rightarrow> py_error + pyval list" where
  "py_iter (VStr s) = Inr (map (\<lambda>c. VStr [c]) s)"
| "py_iter (VList xs) = Inr xs"
| "py_iter (VInt i) = Inl TypeError"
| "py_iter VNone = Inl TypeError"

text \<open>\<open>v[i]\<close> for an index that is known to be below \<open>len(v)\<close>.\<close>

fun py_item :: "pyval \<Rightarrow> nat \<Rightarrow> pyval" where
  "py_item (VStr s) i = VStr [s ! i]"
| "py_item (VList xs) i = xs ! i"
| "py_item v i = VNone"

fun hashable :: "pyval \<Rightarrow> bool" where
  "hashable (VList xs) = False"
| "hashable v = True"

text \<open>
  The inner loop \<open>for i, header in enumerate(headers)\<close> on the headers that are left, \<open>i\<close>
  being the index of the first of them.
\<close>

fun fill_row_dict :: "pyval list \<Rightarrow> nat \<Rightarrow> pyval \<Rightarrow> pydict \<Rightarrow> py_error + pydict" where
  "fill_row_dict [] i row row_dict = Inr row_dict"
| "fill_row_dict (header # headers) i row row_dict =
     (case py_len row of
        Inl e \<Rightarrow> Inl e
      | Inr n \<Rightarrow>
          if i < n then
            (if hashable header
             then fill_row_dict headers (i + 1) row (AList.update header (py_item row i) row_dict)
             else Inl TypeError)
          else fill_row_dict headers (i + 1) row row_dict)"

text \<open>The outer loop \<open>for row in rows\<close>; \<open>enumerate(headers)\<close> is evaluated for every row.\<close>

fun format_rows :: "pyval \<Rightarrow> pyval list \<Rightarrow> py_error + pydict list" where
  "format_rows headers [] = Inr []"
| "format_rows headers (row # rows) =
     (case py_iter headers of
        Inl e \<Rightarrow> Inl e
      | Inr hs \<Rightarrow>
          (case fill_row_dict hs 0 row [] of
             Inl e \<Rightarrow> Inl e
           | Inr row_dict \<Rightarrow>
               (case format_rows headers rows of
                  Inl e \<Rightarrow> Inl e
                | Inr formatted_results \<Rightarrow> Inr (row_dict # formatted_results))))"

text \<open>The body of the \<open>try\<close> block, from the reply on.\<close>

definition query_body :: "pyval \<Rightarrow> py_error + pydict list" where
  "query_body result =
     (case py_len result of
        Inl e \<Rightarrow> Inl e
      | Inr n \<Rightarrow>
          if n < 2 then Inr []
          else (case py_iter (py_item result 1) of
                  Inl e \<Rightarrow> Inl e
                | Inr rows \<Rightarrow> format_rows (py_item result 0) rows))"

text \<open>
  The method: whatever is raised inside the \<open>try\<close> block, by the server or by the
  formatting, is caught by \<open>except Exception\<close> and the empty list is returned.
\<close>

definition query :: "env \<Rightarrow> string \<Rightarrow> string \<Rightarrow> world \<Rightarrow> pydict list \<times> world" where
  "query env graph cypher_query w =
     (let cmd = (graph, cypher_query);
          w1 = w\<lparr>sent := sent w @ [cmd]\<rparr>
      in case server env (sent w) cmd of
           Inl e \<Rightarrow> ([], w1)
         | Inr result \<Rightarrow>
             (case query_body result of
                Inl e \<Rightarrow> ([], w1)
              | Inr formatted_results \<Rightarrow> (formatted_results, w1)))"

text \<open>The keys of a dictionary.\<close>

definition keys :: "pydict \<Rightarrow> pyval set" where
  "keys d = fst ` set d"

text \<open>For the examples: a server that always gives the same reply, and one that always raises.\<close>

definition reply_env :: "pyval \<Rightarrow> env" where
  "reply_env r = \<lparr>server = (\<lambda>history cmd. Inr r), clock = (\<lambda>n. ''2024-01-01T00:00:00'')\<rparr>"

definition failing_env :: env where
  "failing_env =
     \<lparr>server = (\<lambda>history cmd. Inl ''Connection refused''), clock = (\<lambda>n. ''2024-01-01T00:00:00'')\<rparr>"

section \<open>Vocabulary for the statements about rendering\<close>

text \<open>
  A double-quoted string literal of the query language: an opening quote, a body in which
  a backslash takes the next character with it, and a closing quote, which is the first
  quote that is not escaped. \<open>single_literal s\<close> says that \<open>s\<close> is one such literal and
  nothing more.
\<close>

fun closes_at_end :: "string \<Rightarrow> bool" where
  "closes_at_end [] = False"
| "closes_at_end [c] = (c = dquote)"
| "closes_at_end (c # d # r) =
     (if c = dquote then False
      else if c = backslash then closes_at_end r
      else closes_at_end (d # r))"

definition single_literal :: "string \<Rightarrow> bool" where
  "single_literal s = (case s of [] \<Rightarrow> False | c # r \<Rightarrow> c = dquote \<and> closes_at_end r)"

text \<open>
  A template seen as a sequence of pieces: stretches of text and placeholders \<open>$name\<close>.
  \<open>flatten\<close> gives the text of the template back.
\<close>

datatype piece = Text string | Hole string

fun piece_text :: "piece \<Rightarrow> string" where
  "piece_text (Text s) = s"
| "piece_text (Hole n) = dollar # n"

definition flatten :: "piece list \<Rightarrow> string" where
  "flatten t = concat (map piece_text t)"

text \<open>Names are made of letters, digits and underscores.\<close>

definition is_name_char :: "char \<Rightarrow> bool" where
  "is_name_char c =
     (let n = (of_char c :: nat)
      in (48 \<le> n \<and> n \<le> 57) \<or> (65 \<le> n \<and> n \<le> 90) \<or> (97 \<le> n \<and> n \<le> 122) \<or> n = 95)"

definition is_name :: "string \<Rightarrow> bool" where
  "is_name n = (\<forall>c \<in> set n. is_name_char c)"

text \<open>
  A template is delimited when the sign \<open>$\<close> occurs only at the head of a placeholder, the
  placeholder names are names, and every placeholder is followed by the end of the template
  or by text that starts with a character that cannot belong to a name.
\<close>

fun delimited :: "piece list \<Rightarrow> bool" where
  "delimited [] = True"
| "delimited (Text s # r) = (dollar \<notin> set s \<and> delimited r)"
| "delimited (Hole n # r) =
     (is_name n \<and>
      (case r of [] \<Rightarrow> True | Text [] # r1 \<Rightarrow> False | Text (c # s) # r1 \<Rightarrow> \<not> is_name_char c
       | Hole m # r1 \<Rightarrow> False) \<and>
      delimited r)"

text \<open>
  What a piece should become: a placeholder whose name is in the mapping becomes the literal
  of its value, everything else stays. \<open>rendered\<close> is the whole query.
\<close>

definition resolve :: "params \<Rightarrow> piece \<Rightarrow> string" where
  "resolve ps p =
     (case p of
        Text s \<Rightarrow> s
      | Hole n \<Rightarrow> (case map_of ps n of Some v \<Rightarrow> literal_rtf v | None \<Rightarrow> dollar # n))"

definition rendered :: "params \<Rightarrow> piece list \<Rightarrow> string" where
  "rendered ps t = concat (map (resolve ps) t)"

text \<open>
  The mapping is plain when its names are names and no literal of a value contains the
  sign \<open>$\<close>. The placeholders of a template are apart from the mapping when no name of the
  mapping is a prefix of a placeholder name that is not in the mapping.
\<close>

definition plain :: "params \<Rightarrow> bool" where
  "plain ps = (\<forall>kv \<in> set ps. is_name (fst kv) \<and> dollar \<notin> set (literal_rtf (snd kv)))"

definition apart :: "params \<Rightarrow> piece list \<Rightarrow> bool" where
  "apart ps t =
     (\<forall>p \<in> set t. case p of
         Text s \<Rightarrow> True
       | Hole n \<Rightarrow> n \<in> fst ` set ps \<or> (\<forall>kv \<in> set ps. \<not> prefix (fst kv) n))"

text \<open>One step of the substitution, on pieces.\<close>

definition fill :: "string \<Rightarrow> string \<Rightarrow> piece list \<Rightarrow> piece list" where
  "fill k r t = map (\<lambda>p. if p = Hole k then Text r else p) t"

text \<open>
  What one replacement does to a delimited template whatever the names of its placeholders:
  \<open>replace('$k', r)\<close> rewrites the head of every placeholder whose name starts with \<open>k\<close>,
  and what is left of the name stays behind the inserted text.
\<close>

definition fill_prefix :: "string \<Rightarrow> string \<Rightarrow> piece list \<Rightarrow> piece list" where
  "fill_prefix k r t =
     map (\<lambda>p. case p of
            Text s \<Rightarrow> Text s
          | Hole n \<Rightarrow> if prefix k n then Text (r @ drop (length k) n) else Hole n) t"


section \<open>Reading the rows of a table\<close>

subsection \<open>The lines of a text file\<close>

text \<open>
  The plain-file importer opens the file with \<open>newline=''\<close> and \<open>encoding='utf-8-sig'\<close>
  and hands the file object to the reader, which iterates over its lines. The codec drops
  one byte-order mark at the very start of the file. A line ends behind \<open>\n\<close>, \<open>\r\n\<close> or a
  single \<open>\r\<close>, and keeps its line ending. \<open>cur\<close> is the part of the current line that has
  been read.
\<close>

definition decode_utf8_sig :: "string \<Rightarrow> string" where
  "decode_utf8_sig content =
     (case content of [] \<Rightarrow> [] | c # r \<Rightarrow> if c = bom then r else c # r)"

fun file_lines_from :: "string \<Rightarrow> string \<Rightarrow> string list" where
  "file_lines_from cur [] = (if cur = [] then [] else [cur])"
| "file_lines_from cur [c] = [cur @ [c]]"
| "file_lines_from cur (c # d # r) =
     (if c = newline then (cur @ [c]) # file_lines_from [] (d # r)
      else if c = carriage_return then
        (if d = newline then (cur @ [c, d]) # file_lines_from [] r
         else (cur @ [c]) # file_lines_from [] (d # r))
      else file_lines_from (cur @ [c]) (d # r))"

definition file_lines :: "string \<Rightarrow> string list" where
  "file_lines text = file_lines_from [] text"

subsection \<open>The standard library's reader\<close>

text \<open>
  \<open>csv.reader\<close> with the default dialect: delimiter comma, quote character \<open>"\<close>, doubled
  quotes inside quoted fields, no escape character, not strict. The reader is a state
  machine that is fed the characters of each line and then an end-of-line signal (\<open>None\<close>
  below). A field may hold at most 131072 characters.
\<close>

datatype parse_state =
  START_RECORD | START_FIELD | IN_FIELD | IN_QUOTED_FIELD | QUOTE_IN_QUOTED_FIELD | EAT_CRNL

record reader =
  state :: parse_state
  field :: string
  fields_acc :: "string list"

definition parse_reset :: reader where
  "parse_reset = \<lparr>state = START_RECORD, field = [], fields_acc = []\<rparr>"

definition parse_save_field :: "reader \<Rightarrow> reader" where
  "parse_save_field r = r\<lparr>fields_acc := fields_acc r @ [field r], field := []\<rparr>"

definition parse_add_char :: "reader \<Rightarrow> char \<Rightarrow> py_error + reader" where
  "parse_add_char r c =
     (if int (length (field r)) \<ge> 131072 then Inl CsvError
      else Inr (r\<lparr>field := field r @ [c]\<rparr>))"

definition is_eol :: "char option \<Rightarrow> bool" where
  "is_eol c = (c = None \<or> c = Some newline \<or> c = Some carriage_return)"

definition after_line_end :: "char option \<Rightarrow> parse_state" where
  "after_line_end c = (if c = None then START_RECORD else EAT_CRNL)"

definition start_field :: "reader \<Rightarrow> char option \<Rightarrow> py_error + reader" where
  "start_field r c =
     (if is_eol c then Inr ((parse_save_field r)\<lparr>state := after_line_end c\<rparr>)
      else if c = Some dquote then Inr (r\<lparr>state := IN_QUOTED_FIELD\<rparr>)
      else if c = Some CHR '','' then Inr (parse_save_field r)
      else map_sum id (\<lambda>r1. r1\<lparr>state := IN_FIELD\<rparr>) (parse_add_char r (the c)))"

definition parse_process_char :: "reader \<Rightarrow> char option \<Rightarrow> py_error + reader" where
  "parse_process_char r c =
     (case state r of
        START_RECORD \<Rightarrow>
          if c = None then Inr r
          else if c = Some newline \<or> c = Some carriage_return then Inr (r\<lparr>state := EAT_CRNL\<rparr>)
          else start_field (r\<lparr>state := START_FIELD\<rparr>) c
      | START_FIELD \<Rightarrow> start_field r c
      | IN_FIELD \<Rightarrow>
          if is_eol c then Inr ((parse_save_field r)\<lparr>state := after_line_end c\<rparr>)
          else if c = Some CHR '','' then Inr ((parse_save_field r)\<lparr>state := START_FIELD\<rparr>)
          else parse_add_char r (the c)
      | IN_QUOTED_FIELD \<Rightarrow>
          if c = None then Inr r
          else if c = Some dquote then Inr (r\<lparr>state := QUOTE_IN_QUOTED_FIELD\<rparr>)
          else parse_add_char r (the c)
      | QUOTE_IN_QUOTED_FIELD \<Rightarrow>
          if c = Some dquote
          then map_sum id (\<lambda>r1. r1\<lparr>state := IN_QUOTED_FIELD\<rparr>) (parse_add_char r dquote)
          else if c = Some CHR '','' then Inr ((parse_save_field r)\<lparr>state := START_FIELD\<rparr>)
          else if is_eol c then Inr ((parse_save_field r)\<lparr>state := after_line_end c\<rparr>)
          else map_sum id (\<lambda>r1. r1\<lparr>state := IN_FIELD\<rparr>) (parse_add_char r (the c))
      | EAT_CRNL \<Rightarrow>
          if c = Some newline \<or> c = Some carriage_return then Inr r
          else if c = None then Inr (r\<lparr>state := START_RECORD\<rparr>)
          else Inl CsvError)"

text \<open>The characters of a line, then the end-of-line signal.\<close>

fun feed_chars :: "reader \<Rightarrow> string \<Rightarrow> py_error + reader" where
  "feed_chars r [] = Inr r"
| "feed_chars r (c # cs) =
     (case parse_process_char r (Some c) of Inl e \<Rightarrow> Inl e | Inr r1 \<Rightarrow> feed_chars r1 cs)"

definition feed_line :: "reader \<Rightarrow> string \<Rightarrow> py_error + reader" where
  "feed_line r line =
     (case feed_chars r line of Inl e \<Rightarrow> Inl e | Inr r1 \<Rightarrow> parse_process_char r1 None)"

text \<open>
  All records of the input: \<open>next(reader)\<close> resets the machine and feeds lines until the
  machine is back in \<open>START_RECORD\<close>. When the input ends inside a record, the record is
  returned as it stands. An error ends the sequence; the records before it have been
  delivered.
\<close>

fun read_records :: "reader \<Rightarrow> string list \<Rightarrow> string list list \<times> py_error option" where
  "read_records r [] =
     (if field r \<noteq> [] \<or> state r = IN_QUOTED_FIELD
      then ([fields_acc (parse_save_field r)], None) else ([], None))"
| "read_records r (line # lines) =
     (case feed_line r line of
        Inl e \<Rightarrow> ([], Some e)
      | Inr r1 \<Rightarrow>
          if state r1 = START_RECORD
          then (case read_records parse_reset lines of (rows, e) \<Rightarrow> (fields_acc r1 # rows, e))
          else read_records r1 lines)"

definition csv_reader :: "string list \<Rightarrow> string list list \<times> py_error option" where
  "csv_reader lines = read_records parse_reset lines"

subsection \<open>The dictionary reader\<close>

text \<open>
  \<open>csv.DictReader\<close>: the first record gives the field names; every later record that is not
  empty becomes a dictionary. Surplus cells are filed as a list under the key \<open>None\<close>,
  missing cells are \<open>None\<close>.
\<close>

definition make_row :: "string list \<Rightarrow> string list \<Rightarrow> pydict" where
  "make_row fieldnames row =
     (let d = fold (\<lambda>kv d. AList.update (VStr (fst kv)) (VStr (snd kv)) d) (zip fieldnames row) [];
          lf = length fieldnames;
          lr = length row
      in if lf < lr then AList.update VNone (VList (map VStr (drop lf row))) d
         else fold (\<lambda>key d. AList.update (VStr key) VNone d) (drop lr fieldnames) d)"

text \<open>
  The field names can be replaced between the reading of the header and the first row
  (\<open>reader.fieldnames = ...\<close>); \<open>rename\<close> is what is done to them.
\<close>

definition dict_reader_renamed ::
  "(string list \<Rightarrow> string list) \<Rightarrow> string list \<Rightarrow> pydict list \<times> py_error option" where
  "dict_reader_renamed rename lines =
     (case csv_reader lines of
        ([], e) \<Rightarrow> ([], e)
      | (fieldnames # records, e) \<Rightarrow>
          (map (make_row (rename fieldnames)) (filter (\<lambda>row. row \<noteq> []) records), e))"

definition dict_reader :: "string list \<Rightarrow> pydict list \<times> py_error option" where
  "dict_reader lines = dict_reader_renamed (\<lambda>fieldnames. fieldnames) lines"

subsection \<open>The two sources of rows\<close>

text \<open>
  The plain-file importer: the text of the file without a leading byte-order mark, the
  dictionary reader on its lines with the byte-order marks stripped from the head of every
  field name (\<open>if reader.fieldnames: reader.fieldnames = [name.lstrip('\ufeff') ...]\<close>), then
  \<open>clean_row\<close> on every row; the first row that cannot be cleaned ends the sequence.
\<close>

definition clean_fieldnames :: "string list \<Rightarrow> string list" where
  "clean_fieldnames fieldnames =
     (if fieldnames \<noteq> [] then map lstrip_bom fieldnames else fieldnames)"

fun clean_rows :: "pydict list \<Rightarrow> py_error option \<Rightarrow> pydict list \<times> py_error option" where
  "clean_rows [] e = ([], e)"
| "clean_rows (row # rows) e =
     (case clean_row row of
        Inl e1 \<Rightarrow> ([], Some e1)
      | Inr clean \<Rightarrow> (case clean_rows rows e of (cleaned, e2) \<Rightarrow> (clean # cleaned, e2)))"

definition rows_of_csv_file :: "string \<Rightarrow> pydict list \<times> py_error option" where
  "rows_of_csv_file content =
     (case dict_reader_renamed clean_fieldnames (file_lines (decode_utf8_sig content)) of
        (rows, e) \<Rightarrow> clean_rows rows e)"

text \<open>
  The rich-text importer: the text of the file as it is (\<open>encoding='utf-8'\<close>), the
  recovered lines, and no rows at all when none is recovered
  (\<open>if not csv_lines: ... return\<close>). Nothing is done about byte-order marks.
\<close>

definition rows_of_rtf_file :: "string \<Rightarrow> pydict list \<times> py_error option" where
  "rows_of_rtf_file content =
     (let csv_lines = extract_csv_from_rtf content
      in if csv_lines = [] then ([], None) else dict_reader csv_lines)"

subsection \<open>Wrapping a payload in a rich-text file\<close>

text \<open>
  Modelled from the spec: the repository has no code that writes a rich-text file; the
  spec speaks of wrapping a delimited payload in the container's escaping rules, where the
  backslash is the container's line-break escape and the run of literal text starts at the
  marker and ends at a closing brace. Every line break of the payload is written as a
  backslash followed by the line break, a backslash or a brace of the payload is written
  with a backslash in front, and the run stands behind a short header.
\<close>

definition rtf_escape :: "string \<Rightarrow> string" where
  "rtf_escape payload =
     concat (map (\<lambda>c. if c = newline then [backslash, newline]
                       else if c = backslash \<or> c = lbrace \<or> c = rbrace then [backslash, c]
                       else [c]) payload)"

definition rtf_header :: string where
  "rtf_header = [lbrace, backslash] @ ''rtf1'' @ [backslash] @ ''ansi ''"

definition rtf_wrap :: "string \<Rightarrow> string" where
  "rtf_wrap payload = rtf_header @ marker @ rtf_escape payload @ [rbrace]"

text \<open>
  A payload line that survives the recovery unchanged: not empty, trimmed, and free of
  backslashes, braces, line breaks, quotes and byte-order marks. \<open>payload_of\<close> is the
  payload with these lines.
\<close>

definition clean_line :: "string \<Rightarrow> bool" where
  "clean_line l =
     (l \<noteq> [] \<and> \<not> is_space (hd l) \<and> \<not> is_space (last l) \<and>
      backslash \<notin> set l \<and> lbrace \<notin> set l \<and> rbrace \<notin> set l \<and>
      newline \<notin> set l \<and> carriage_return \<notin> set l \<and> dquote \<notin> set l \<and> bom \<notin> set l)"

definition payload_of :: "string list \<Rightarrow> string" where
  "payload_of ls = concat (map (\<lambda>l. l @ [newline]) ls)"

text \<open>The states the reader can be in while it is outside every quoted field.\<close>

definition unquoted :: "reader \<Rightarrow> bool" where
  "unquoted r = (state r = START_RECORD \<or> state r = START_FIELD \<or> state r = IN_FIELD)"

subsection \<open>The import methods\<close>

text \<open>
  An import method reads its file and runs the loop on the rows. The reader is lazy: an
  error of the reader is raised when the loop asks for the row behind the last good one,
  after the rows before it have been processed. \<open>import_business_segments\<close> is the method
  for the table \<open>BusinessSegments\<close>, and so on. The loop of the plain-file importer cleans
  each row itself.
\<close>

definition import_table_rtf ::
  "env \<Rightarrow> table \<Rightarrow> string \<Rightarrow> importer \<times> world \<Rightarrow> py_error option \<times> importer \<times> world" where
  "import_table_rtf env t content s =
     (case rows_of_rtf_file content of
        (rows, e) \<Rightarrow>
          (case import_rows_rtf env t rows s of
             (None, s1) \<Rightarrow> (e, s1)
           | (Some e1, s1) \<Rightarrow> (Some e1, s1)))"

definition import_table_csv ::
  "env \<Rightarrow> table \<Rightarrow> string \<Rightarrow> importer \<times> world \<Rightarrow> py_error option \<times> importer \<times> world" where
  "import_table_csv env t content s =
     (case dict_reader_renamed clean_fieldnames (file_lines (decode_utf8_sig content)) of
        (rows, e) \<Rightarrow>
          (case import_rows_csv env t rows s of
             (None, s1) \<Rightarrow> (e, s1)
           | (Some e1, s1) \<Rightarrow> (Some e1, s1)))"

text \<open>The characters the reader holds: those of the current field and of the fields read.\<close>

definition reader_chars :: "reader \<Rightarrow> char set" where
  "reader_chars r = set (field r) \<union> \<Union> (set ` set (fields_acc r))"

section \<open>Properties of the rich-text recovery\<close>

subsection \<open>Trimming and splitting\<close>

lemma dropWhile_id: "xs = [] \<or> \<not> P (hd xs) \<Longrightarrow> dropWhile P xs = xs"
  by (cases xs) auto

lemma strip_ends: "strip s = [] \<or> (\<not> is_space (hd (strip s)) \<and> \<not> is_space (last (strip s)))"
proof -
  let ?a = "dropWhile is_space s"
  let ?b = "dropWhile is_space (rev ?a)"
  have b: "?b = [] \<or> \<not> is_space (hd ?b)" using hd_dropWhile[of is_space "rev ?a"] by blast
  have a: "?a = [] \<or> \<not> is_space (hd ?a)" using hd_dropWhile[of is_space s] by blast
  show ?thesis
  proof (cases "?b = []")
    case True then show ?thesis unfolding strip_def by simp
  next
    case False
    then have nb: "\<not> is_space (hd ?b)" using b by blast
    have la: "last (rev ?b) = hd ?b" using False by (simp add: last_rev)
    have "?a \<noteq> []"
    proof
      assume e: "?a = []"
      have "?b = []" unfolding e by simp
      with False show False by contradiction
    qed
    then have ha: "\<not> is_space (hd ?a)" using a by blast
    obtain ys where ys: "rev ?a = ys @ ?b" by (metis takeWhile_dropWhile_id)
    then have "?a = rev ?b @ rev ys" by (metis rev_append rev_rev_ident)
    then have "hd (rev ?b) = hd ?a" using False by (metis hd_append2 rev_is_Nil_conv)
    then show ?thesis using ha nb la unfolding strip_def by simp
  qed
qed

lemma strip_idem: "strip (strip s) = strip s"
proof (cases "strip s = []")
  case True then show ?thesis unfolding strip_def[of "strip s"] by simp
next
  case False
  then have h: "\<not> is_space (hd (strip s))" and l: "\<not> is_space (last (strip s))"
    using strip_ends[of s] by auto
  have 1: "dropWhile is_space (strip s) = strip s" using h by (intro dropWhile_id) simp
  have "hd (rev (strip s)) = last (strip s)" using False by (simp add: hd_rev)
  then have 2: "dropWhile is_space (rev (strip s)) = rev (strip s)" using l by (intro dropWhile_id) simp
  show ?thesis unfolding strip_def[of "strip s"] 1 2 by simp
qed

lemma set_strip: "set (strip s) \<subseteq> set s"
  unfolding strip_def by (metis set_dropWhileD set_rev subsetI)

lemma split_on_ne: "split_on sep s \<noteq> []"
  by (induction s) (auto simp: Let_def)

lemma split_on_sets: "l \<in> set (split_on sep s) \<Longrightarrow> set l \<subseteq> set s \<and> sep \<notin> set l"
proof (induction s arbitrary: l)
  case Nil then show ?case by simp
next
  case (Cons c cs)
  show ?case
  proof (cases "c = sep")
    case True with Cons show ?thesis by auto
  next
    case False
    obtain x xs where r: "split_on sep cs = x # xs" using split_on_ne by (cases "split_on sep cs") auto
    have ihx: "set x \<subseteq> set cs \<and> sep \<notin> set x" using Cons.IH[of x] r by simp
    from Cons.prems r False have "l = c # x \<or> l \<in> set xs" by (simp add: Let_def)
    then show ?thesis
    proof
      assume "l = c # x" then show ?thesis using ihx False by auto
    next
      assume "l \<in> set xs" then show ?thesis using Cons.IH[of l] r by auto
    qed
  qed
qed


subsection \<open>The search for the marker\<close>

lemma findall_no_marker: "\<not> occurs_in marker s \<Longrightarrow> findall s = []"
  by (induction s) (auto simp: match_at_def)

lemma marker_len: "length marker = 10" by (simp add: marker_def)

lemma marker_no_rbrace: "rbrace \<notin> set marker" by (simp add: marker_def)

lemma occurs_in_prefix: "prefix p s \<Longrightarrow> occurs_in p s"
  by (cases s) auto

lemma prefix_marker_shift:
  assumes "prefix marker (pre @ marker @ x)" "pre \<noteq> []"
  shows "prefix marker (pre @ butlast marker)"
proof -
  have l: "length marker \<le> length (pre @ butlast marker)"
    using assms(2) by (cases pre) (auto simp: marker_len)
  have "prefix (pre @ butlast marker) (pre @ marker @ x)"
    by (simp add: prefixeq_butlast prefix_order.order_trans)
  with assms(1) l show ?thesis
    by (meson prefix_length_prefix)
qed

lemma match_at_run:
  "rbrace \<notin> set body \<Longrightarrow> match_at (marker @ c # body @ rbrace # rest) = Some (c # body)"
  by (auto simp: match_at_def takeWhile_tail)

lemma findall_first_run:
  "\<not> occurs_in marker (pre @ butlast marker) \<Longrightarrow> rbrace \<notin> set body \<Longrightarrow>
   findall (pre @ marker @ c # body @ rbrace # rest) = (c # body) # findall rest"
proof (induction pre)
  case Nil
  let ?s = "marker @ c # body @ rbrace # rest"
  obtain m0 ms where ms: "?s = m0 # ms" by (cases ?s) (auto simp: marker_def)
  have ma: "match_at (m0 # ms) = Some (c # body)"
    using match_at_run[OF Nil(2), of c rest] unfolding ms .
  have d: "drop (length marker + length (c # body) + 1) ?s = rest" by simp
  have "findall (m0 # ms) = (c # body) # findall (drop (length marker + length (c # body) + 1) (m0 # ms))"
    using ma by simp
  then show ?case using d unfolding ms[symmetric] by simp
next
  case (Cons p ps)
  have np: "\<not> prefix marker ((p # ps) @ marker @ c # body @ rbrace # rest)"
    using prefix_marker_shift[of "p # ps"] Cons.prems(1) occurs_in_prefix by blast
  then have "match_at ((p # ps) @ marker @ c # body @ rbrace # rest) = None"
    by (simp add: match_at_def)
  moreover have "\<not> occurs_in marker (ps @ butlast marker)" using Cons.prems(1) by simp
  ultimately show ?case using Cons.IH Cons.prems(2) by simp
qed


text \<open>
  Claim C8. If the marker \<open>\strokec2\<close> never appears in the file, the recovery returns the
  empty list (it does not raise). If the file holds a first run (the first occurrence of the
  marker, a non-empty body without a closing brace behind its first character, and the
  closing brace), the result is computed from that body alone: whatever follows the brace,
  further runs included, is ignored.
\<close>

theorem recovery_marker_cases:
  "(\<not> occurs_in marker content \<longrightarrow> extract_csv_from_rtf content = []) \<and>
   (\<not> occurs_in marker (pre @ butlast marker) \<and> rbrace \<notin> set body \<longrightarrow>
      extract_csv_from_rtf (pre @ marker @ c # body @ rbrace # rest) = payload_lines (c # body))"
  by (simp add: extract_csv_from_rtf_def findall_no_marker findall_first_run)


theorem recovery_marker_cases_witness:
  "\<not> occurs_in marker ''{hello}'' \<and> extract_csv_from_rtf ''{hello}'' = [] \<and>
   \<not> occurs_in marker (''{x '' @ butlast marker) \<and> rbrace \<notin> set (''a,b'' @ [backslash, newline] @ ''1,2'') \<and>
   extract_csv_from_rtf (''{x '' @ marker @ CHR ''h'' # (''a,b'' @ [backslash, newline] @ ''1,2'') @ rbrace # (marker @ ''z,w}}''))
     = [''ha,b'', ''1,2'']"
proof -
  have 1: "\<not> occurs_in marker ''{hello}''" by (simp add: marker_def)
  have 2: "\<not> occurs_in marker (''{x '' @ butlast marker)" by (simp add: marker_def)
  have 3: "rbrace \<notin> set (''a,b'' @ [backslash, newline] @ ''1,2'')" by simp
  have 4: "payload_lines (CHR ''h'' # (''a,b'' @ [backslash, newline] @ ''1,2'')) = [''ha,b'', ''1,2'']"
    by code_simp
  show ?thesis
    using recovery_marker_cases[of "''{hello}''" "''{x ''" "''a,b'' @ [backslash, newline] @ ''1,2''" "CHR ''h''" "marker @ ''z,w}}''"] 1 2 3 4
    by simp
qed

text \<open>
  Claim C9. Every line the recovery returns is non-empty, is its own trimmed form, and
  contains neither a brace nor a newline.
\<close>

theorem recovered_lines_clean:
  "l \<in> set (extract_csv_from_rtf content) \<Longrightarrow>
     l \<noteq> [] \<and> strip l = l \<and> lbrace \<notin> set l \<and> rbrace \<notin> set l \<and> newline \<notin> set l"
proof -
  assume a: "l \<in> set (extract_csv_from_rtf content)"
  then obtain m ms where f: "findall content = m # ms"
    by (cases "findall content") (auto simp: extract_csv_from_rtf_def)
  note a = a[unfolded extract_csv_from_rtf_def f, simplified]
  define t where "t = filter (\<lambda>c. c \<noteq> lbrace \<and> c \<noteq> rbrace) (replace [backslash] [newline] m)"
  from a f obtain x where x: "x \<in> set (split_on newline (strip t))" "strip x \<noteq> []" "l = strip x"
    by (auto simp: payload_lines_def t_def Let_def)
  have sx: "set x \<subseteq> set (strip t)" "newline \<notin> set x" using split_on_sets[OF x(1)] by auto
  have "set (strip t) \<subseteq> set t" by (rule set_strip)
  moreover have "lbrace \<notin> set t" "rbrace \<notin> set t" by (auto simp: t_def)
  ultimately have "lbrace \<notin> set x" "rbrace \<notin> set x" using sx by auto
  then show ?thesis using x sx set_strip[of x] strip_idem[of x] by auto
qed

theorem recovered_lines_clean_witness:
  "''1,2'' \<in> set (extract_csv_from_rtf (''{x '' @ marker @ ''a,b'' @ [backslash, newline] @ '' 1,2 }''))
   \<and> ''1,2'' \<noteq> [] \<and> strip ''1,2'' = ''1,2'' \<and> lbrace \<notin> set ''1,2'' \<and> rbrace \<notin> set ''1,2''
   \<and> newline \<notin> set ''1,2''"
proof -
  have e: "extract_csv_from_rtf (''{x '' @ marker @ ''a,b'' @ [backslash, newline] @ '' 1,2 }'')
           = [''a,b'', ''1,2'']"
    by code_simp
  have m: "''1,2'' \<in> set (extract_csv_from_rtf (''{x '' @ marker @ ''a,b'' @ [backslash, newline] @ '' 1,2 }''))"
    unfolding e by simp
  show ?thesis
    using recovered_lines_clean[OF m] m by simp
qed

section \<open>Properties of the import loops\<close>

lemma bump_keeps: "errors (bump t imp) = errors imp" "graph_name (bump t imp) = graph_name imp"
  by (cases t; simp)+

lemma counter_bump: "counter t (bump t imp) = counter t imp + 1"
  by (cases t) simp_all

lemma counter_errors_update: "counter t (imp\<lparr>errors := es\<rparr>) = counter t imp"
  by (cases t) simp_all

lemma execute_cypher_rtf_step:
  "execute_cypher_rtf env q ps (imp, w) = (r, imp', w') \<Longrightarrow>
     counter t imp' = counter t imp \<and> graph_name imp' = graph_name imp \<and>
     ticks w' = ticks w \<and>
     sent w' = sent w @ [(graph_name imp, render_rtf q ps)] \<and>
     errors imp' = errors imp @ failures_rtf env (sent w) [(graph_name imp, render_rtf q ps)]"
  by (auto simp: execute_cypher_rtf_def Let_def counter_errors_update split: sum.splits)

lemma execute_cypher_csv_step:
  "execute_cypher_csv env q ps (imp, w) = (r, imp', w') \<Longrightarrow>
     counter t imp' = counter t imp \<and> graph_name imp' = graph_name imp \<and>
     ticks w' = ticks w \<and>
     sent w' = sent w @ [(graph_name imp, render_csv q ps)] \<and>
     errors imp' = errors imp @ failures_csv env q (sent w) [(graph_name imp, render_csv q ps)]"
  by (auto simp: execute_cypher_csv_def Let_def counter_errors_update split: sum.splits)

lemma failures_rtf_append:
  "failures_rtf env h (xs @ ys) = failures_rtf env h xs @ failures_rtf env (h @ xs) ys"
  by (induction xs arbitrary: h) auto

lemma failures_csv_append:
  "failures_csv env q h (xs @ ys) = failures_csv env q h xs @ failures_csv env q (h @ xs) ys"
  by (induction xs arbitrary: h) auto

lemma import_rows_rtf_all:
  "\<forall>row \<in> set rows. attempted_rtf t row \<Longrightarrow>
   import_rows_rtf env t rows (imp, w) = (r, imp', w') \<Longrightarrow>
     r = None \<and> counter t imp' = counter t imp + int (length rows) \<and>
     length (commands_rtf env t (graph_name imp) (ticks w) rows) = length rows \<and>
     sent w' = sent w @ commands_rtf env t (graph_name imp) (ticks w) rows \<and>
     errors imp' = errors imp @
        failures_rtf env (sent w) (commands_rtf env t (graph_name imp) (ticks w) rows)"
proof (induction rows arbitrary: imp w)
  case Nil
  then show ?case by simp
next
  case (Cons row rows)
  from Cons.prems(1) obtain ps where ps: "read_columns (columns t) row = Inr ps"
    and pl: "progress_line t row = None"
    by (auto simp: attempted_rtf_def split: sum.splits)
  let ?params = "ps @ [(''created_at'', VStr (clock env (ticks w)))]"
  obtain res imp2 w2 where ex:
    "execute_cypher_rtf env (query_template_rtf t) (Some ?params) (imp, w\<lparr>ticks := ticks w + 1\<rparr>)
       = (res, imp2, w2)"
    by (metis prod_cases3)
  define c where "c = (graph_name imp, render_rtf (query_template_rtf t) (Some ?params))"
  from execute_cypher_rtf_step[OF ex, of t] have
    st: "counter t imp2 = counter t imp" "graph_name imp2 = graph_name imp"
        "ticks w2 = ticks w + 1" "sent w2 = sent w @ [c]"
        "errors imp2 = errors imp @ failures_rtf env (sent w) [c]"
    by (auto simp: c_def)
  let ?cmds = "commands_rtf env t (graph_name imp) (ticks w + 1) rows"
  have cm: "commands_rtf env t (graph_name imp) (ticks w) (row # rows) = c # ?cmds"
    using ps by (simp add: c_def)
  have rest: "import_rows_rtf env t rows (bump t imp2, w2) = (r, imp', w')"
    using Cons.prems(2) ps pl ex by (simp add: Let_def)
  from Cons.IH[OF _ rest] Cons.prems(1) have
    ih: "r = None" "counter t imp' = counter t (bump t imp2) + int (length rows)"
        "length ?cmds = length rows"
        "sent w' = sent w2 @ ?cmds"
        "errors imp' = errors (bump t imp2) @ failures_rtf env (sent w2) ?cmds"
    by (auto simp: bump_keeps st)
  have "sent w' = sent w @ (c # ?cmds)" using ih(4) st(4) by simp
  moreover have "length (c # ?cmds) = length (row # rows)" using ih(3) by simp
  moreover have "errors imp' = errors imp @ failures_rtf env (sent w) (c # ?cmds)"
    using ih(5) st(4,5) failures_rtf_append[of env "sent w" "[c]" ?cmds] by (simp add: bump_keeps)
  moreover have "counter t imp' = counter t imp + int (length (row # rows))"
    using ih(2) st(1) by (simp add: counter_bump)
  ultimately show ?case using ih(1) unfolding cm by blast
qed

lemma import_rows_csv_all:
  "\<forall>row \<in> set rows. attempted_csv t row \<Longrightarrow>
   import_rows_csv env t rows (imp, w) = (r, imp', w') \<Longrightarrow>
     r = None \<and> counter t imp' = counter t imp + int (length rows) \<and>
     length (commands_csv env t (graph_name imp) (ticks w) rows) = length rows \<and>
     sent w' = sent w @ commands_csv env t (graph_name imp) (ticks w) rows \<and>
     errors imp' = errors imp @
        failures_csv env (query_template_csv t) (sent w) (commands_csv env t (graph_name imp) (ticks w) rows)"
proof (induction rows arbitrary: imp w)
  case Nil
  then show ?case by simp
next
  case (Cons row rows)
  from Cons.prems(1) obtain ps where ps: "read_columns (columns t) row = Inr ps"
    and pl: "progress_line t row = None" and cl: "clean_row row = Inr row"
    by (auto simp: attempted_csv_def attempted_rtf_def split: sum.splits)
  let ?params = "ps @ [(''created_at'', VStr (clock env (ticks w)))]"
  obtain res imp2 w2 where ex:
    "execute_cypher_csv env (query_template_csv t) (Some ?params) (imp, w\<lparr>ticks := ticks w + 1\<rparr>)
       = (res, imp2, w2)"
    by (metis prod_cases3)
  define c where "c = (graph_name imp, render_csv (query_template_csv t) (Some ?params))"
  from execute_cypher_csv_step[OF ex, of t] have
    st: "counter t imp2 = counter t imp" "graph_name imp2 = graph_name imp"
        "ticks w2 = ticks w + 1" "sent w2 = sent w @ [c]"
        "errors imp2 = errors imp @ failures_csv env (query_template_csv t) (sent w) [c]"
    by (auto simp: c_def)
  let ?cmds = "commands_csv env t (graph_name imp) (ticks w + 1) rows"
  have cm: "commands_csv env t (graph_name imp) (ticks w) (row # rows) = c # ?cmds"
    using ps by (simp add: c_def)
  have rest: "import_rows_csv env t rows (bump t imp2, w2) = (r, imp', w')"
    using Cons.prems(2) ps pl cl ex by (simp add: Let_def)
  from Cons.IH[OF _ rest] Cons.prems(1) have
    ih: "r = None" "counter t imp' = counter t (bump t imp2) + int (length rows)"
        "length ?cmds = length rows"
        "sent w' = sent w2 @ ?cmds"
        "errors imp' = errors (bump t imp2) @ failures_csv env (query_template_csv t) (sent w2) ?cmds"
    by (auto simp: bump_keeps st)
  have "sent w' = sent w @ (c # ?cmds)" using ih(4) st(4) by simp
  moreover have "length (c # ?cmds) = length (row # rows)" using ih(3) by simp
  moreover have "errors imp' = errors imp @ failures_csv env (query_template_csv t) (sent w) (c # ?cmds)"
    using ih(5) st(4,5) failures_csv_append[of env _ "sent w" "[c]" ?cmds] by (simp add: bump_keeps)
  moreover have "counter t imp' = counter t imp + int (length (row # rows))"
    using ih(2) st(1) by (simp add: counter_bump)
  ultimately show ?case using ih(1) unfolding cm by blast
qed

lemma import_rows_rtf_stop:
  "read_columns (columns t) bad = Inl e \<Longrightarrow>
   import_rows_rtf env t (pre @ bad # post) s = stopped_by e (import_rows_rtf env t pre s)"
proof (induction pre arbitrary: s)
  case Nil
  then show ?case by (cases s) (simp add: stopped_by_def)
next
  case (Cons row pre)
  obtain imp w where s: "s = (imp, w)" by (cases s)
  show ?case
    unfolding s using Cons
    by (auto simp: Let_def stopped_by_def split: sum.splits option.splits prod.splits)
qed

lemma import_rows_csv_stop:
  "clean_row bad = Inr bad \<Longrightarrow> read_columns (columns t) bad = Inl e \<Longrightarrow>
   import_rows_csv env t (pre @ bad # post) s = stopped_by e (import_rows_csv env t pre s)"
proof (induction pre arbitrary: s)
  case Nil
  then show ?case by (cases s) (simp add: stopped_by_def)
next
  case (Cons row pre)
  obtain imp w where s: "s = (imp, w)" by (cases s)
  show ?case
    unfolding s using Cons
    by (auto simp: Let_def stopped_by_def split: sum.splits option.splits prod.splits)
qed

text \<open>
  Claim C5. For every table and both importers: when every row of the table gets as far
  as being sent, the loop runs to its end whatever the server answers. A rejected query
  leaves one line in the error list, made of the first 100 characters of the query text and
  the message, and the loop goes on with the next row; the table's counter grows by one for
  every row, whether the server accepted the query or not.
\<close>

theorem failed_submissions_collected:
  "((\<forall>row \<in> set rows. attempted_rtf t row) \<longrightarrow>
      (case import_rows_rtf env t rows (imp, w) of (r, imp', w') \<Rightarrow>
         r = None \<and> counter t imp' = counter t imp + int (length rows) \<and>
         length (commands_rtf env t (graph_name imp) (ticks w) rows) = length rows \<and>
         sent w' = sent w @ commands_rtf env t (graph_name imp) (ticks w) rows \<and>
         errors imp' = errors imp @
           failures_rtf env (sent w) (commands_rtf env t (graph_name imp) (ticks w) rows))) \<and>
   ((\<forall>row \<in> set rows. attempted_csv t row) \<longrightarrow>
      (case import_rows_csv env t rows (imp, w) of (r, imp', w') \<Rightarrow>
         r = None \<and> counter t imp' = counter t imp + int (length rows) \<and>
         length (commands_csv env t (graph_name imp) (ticks w) rows) = length rows \<and>
         sent w' = sent w @ commands_csv env t (graph_name imp) (ticks w) rows \<and>
         errors imp' = errors imp @
           failures_csv env (query_template_csv t) (sent w)
             (commands_csv env t (graph_name imp) (ticks w) rows)))"
proof (intro conjI impI)
  assume a: "\<forall>row \<in> set rows. attempted_rtf t row"
  obtain r imp' w' where e: "import_rows_rtf env t rows (imp, w) = (r, imp', w')"
    by (metis prod_cases3)
  show "case import_rows_rtf env t rows (imp, w) of (r, imp', w') \<Rightarrow>
         r = None \<and> counter t imp' = counter t imp + int (length rows) \<and>
         length (commands_rtf env t (graph_name imp) (ticks w) rows) = length rows \<and>
         sent w' = sent w @ commands_rtf env t (graph_name imp) (ticks w) rows \<and>
         errors imp' = errors imp @
           failures_rtf env (sent w) (commands_rtf env t (graph_name imp) (ticks w) rows)"
    unfolding e using import_rows_rtf_all[OF a e] by simp
next
  assume a: "\<forall>row \<in> set rows. attempted_csv t row"
  obtain r imp' w' where e: "import_rows_csv env t rows (imp, w) = (r, imp', w')"
    by (metis prod_cases3)
  show "case import_rows_csv env t rows (imp, w) of (r, imp', w') \<Rightarrow>
         r = None \<and> counter t imp' = counter t imp + int (length rows) \<and>
         length (commands_csv env t (graph_name imp) (ticks w) rows) = length rows \<and>
         sent w' = sent w @ commands_csv env t (graph_name imp) (ticks w) rows \<and>
         errors imp' = errors imp @
           failures_csv env (query_template_csv t) (sent w)
             (commands_csv env t (graph_name imp) (ticks w) rows)"
    unfolding e using import_rows_csv_all[OF a e] by simp
qed

theorem failed_submissions_collected_witness:
  "attempted_rtf UsedIn (used_in_row ''T1'' ''5'') \<and> attempted_rtf UsedIn (used_in_row ''T2'' ''7'') \<and>
   attempted_csv UsedIn (used_in_row ''T1'' ''5'') \<and> attempted_csv UsedIn (used_in_row ''T2'' ''7'') \<and>
   fst (import_rows_rtf moody_env UsedIn [used_in_row ''T1'' ''5'', used_in_row ''T2'' ''7'']
          (fresh_importer, fresh_world)) = None \<and>
   used_in_relationships (fst (snd (import_rows_rtf moody_env UsedIn
          [used_in_row ''T1'' ''5'', used_in_row ''T2'' ''7''] (fresh_importer, fresh_world)))) = 2 \<and>
   fst (import_rows_csv moody_env UsedIn [used_in_row ''T1'' ''5'', used_in_row ''T2'' ''7'']
          (fresh_importer, fresh_world)) = None \<and>
   used_in_relationships (fst (snd (import_rows_csv moody_env UsedIn
          [used_in_row ''T1'' ''5'', used_in_row ''T2'' ''7''] (fresh_importer, fresh_world)))) = 2"
proof -
  let ?rows = "[used_in_row ''T1'' ''5'', used_in_row ''T2'' ''7'']"
  have h1: "\<forall>row \<in> set ?rows. attempted_rtf UsedIn row" by code_simp
  have h2: "\<forall>row \<in> set ?rows. attempted_csv UsedIn row" by code_simp
  have c0: "counter UsedIn fresh_importer = 0" by (simp add: fresh_importer_def)
  show ?thesis
    using failed_submissions_collected[where rows = ?rows and t = UsedIn and env = moody_env
            and imp = fresh_importer and w = fresh_world] h1 h2 c0
    by (auto split: prod.splits)
qed


text \<open>
  Claim C3, as amended. A row whose parameters cannot be built, for one because an integer
  column such as \<open>priority_score\<close> is not numeric, ends the load of its table: the result
  is that of the rows before it with the exception as outcome, and the rows after it play no
  part. The exception is raised while \<open>params\<close> is built, which is outside the \<open>try\<close> block
  of \<open>execute_cypher\<close>.
\<close>

theorem malformed_row_ends_table:
  "(read_columns (columns t) bad = Inl e \<longrightarrow>
      import_rows_rtf env t (pre @ bad # post) s = stopped_by e (import_rows_rtf env t pre s)) \<and>
   (clean_row bad = Inr bad \<and> read_columns (columns t) bad = Inl e \<longrightarrow>
      import_rows_csv env t (pre @ bad # post) s = stopped_by e (import_rows_csv env t pre s))"
  using import_rows_rtf_stop import_rows_csv_stop by blast

theorem malformed_row_ends_table_witness:
  "read_columns (columns UsedIn) (used_in_row ''T2'' ''abc'') = Inl ValueError \<and>
   clean_row (used_in_row ''T2'' ''abc'') = Inr (used_in_row ''T2'' ''abc'') \<and>
   import_rows_rtf quiet_env UsedIn
      ([used_in_row ''T1'' ''5''] @ used_in_row ''T2'' ''abc'' # [used_in_row ''T3'' ''7''])
      (fresh_importer, fresh_world)
    = stopped_by ValueError
        (import_rows_rtf quiet_env UsedIn [used_in_row ''T1'' ''5''] (fresh_importer, fresh_world)) \<and>
   import_rows_csv quiet_env UsedIn
      ([used_in_row ''T1'' ''5''] @ used_in_row ''T2'' ''abc'' # [used_in_row ''T3'' ''7''])
      (fresh_importer, fresh_world)
    = stopped_by ValueError
        (import_rows_csv quiet_env UsedIn [used_in_row ''T1'' ''5''] (fresh_importer, fresh_world))"
proof -
  have h1: "read_columns (columns UsedIn) (used_in_row ''T2'' ''abc'') = Inl ValueError"
    by code_simp
  have h2: "clean_row (used_in_row ''T2'' ''abc'') = Inr (used_in_row ''T2'' ''abc'')"
    by code_simp
  show ?thesis
    using malformed_row_ends_table[where t = UsedIn and bad = "used_in_row ''T2'' ''abc''"
            and e = ValueError and env = quiet_env and pre = "[used_in_row ''T1'' ''5'']"
            and post = "[used_in_row ''T3'' ''7'']" and s = "(fresh_importer, fresh_world)"]
          h1 h2
    by blast
qed

text \<open>
  The scenario of claim C3 as stated: three rows of the \<open>USED_IN\<close> table, the second with the
  priority score \<open>abc\<close>. Both importers raise \<open>ValueError\<close> with one row counted and one
  query sent; the third row is not attempted.
\<close>

theorem malformed_row_isolation_counterexample:
  "fst (import_rows_rtf quiet_env UsedIn
          [used_in_row ''T1'' ''5'', used_in_row ''T2'' ''abc'', used_in_row ''T3'' ''7'']
          (fresh_importer, fresh_world)) = Some ValueError \<and>
   used_in_relationships (fst (snd (import_rows_rtf quiet_env UsedIn
          [used_in_row ''T1'' ''5'', used_in_row ''T2'' ''abc'', used_in_row ''T3'' ''7'']
          (fresh_importer, fresh_world)))) = 1 \<and>
   length (sent (snd (snd (import_rows_rtf quiet_env UsedIn
          [used_in_row ''T1'' ''5'', used_in_row ''T2'' ''abc'', used_in_row ''T3'' ''7'']
          (fresh_importer, fresh_world))))) = 1 \<and>
   fst (import_rows_csv quiet_env UsedIn
          [used_in_row ''T1'' ''5'', used_in_row ''T2'' ''abc'', used_in_row ''T3'' ''7'']
          (fresh_importer, fresh_world)) = Some ValueError \<and>
   used_in_relationships (fst (snd (import_rows_csv quiet_env UsedIn
          [used_in_row ''T1'' ''5'', used_in_row ''T2'' ''abc'', used_in_row ''T3'' ''7'']
          (fresh_importer, fresh_world)))) = 1 \<and>
   length (sent (snd (snd (import_rows_csv quiet_env UsedIn
          [used_in_row ''T1'' ''5'', used_in_row ''T2'' ''abc'', used_in_row ''T3'' ''7'']
          (fresh_importer, fresh_world))))) = 1"
proof -
  let ?r1 = "used_in_row ''T1'' ''5''" and ?bad = "used_in_row ''T2'' ''abc''"
  let ?r3 = "used_in_row ''T3'' ''7''" and ?s = "(fresh_importer, fresh_world)"
  have bad: "read_columns (columns UsedIn) ?bad = Inl ValueError" by code_simp
  have cl: "clean_row ?bad = Inr ?bad" by code_simp
  have a1: "\<forall>row \<in> set [?r1]. attempted_rtf UsedIn row" by code_simp
  have a2: "\<forall>row \<in> set [?r1]. attempted_csv UsedIn row" by code_simp
  have z: "used_in_relationships fresh_importer = 0" "sent fresh_world = []"
    by (simp_all add: fresh_importer_def fresh_world_def)
  obtain r i w where e: "import_rows_rtf quiet_env UsedIn [?r1] ?s = (r, i, w)"
    by (metis prod_cases3)
  have 1: "r = None" "used_in_relationships i = 1" "length (sent w) = 1"
    using import_rows_rtf_all[OF a1 e] z by simp_all
  have s1: "import_rows_rtf quiet_env UsedIn [?r1, ?bad, ?r3] ?s = (Some ValueError, i, w)"
    using import_rows_rtf_stop[OF bad, of quiet_env "[?r1]" "[?r3]" ?s] e 1(1)
    by (simp add: stopped_by_def)
  obtain r' i' w' where e': "import_rows_csv quiet_env UsedIn [?r1] ?s = (r', i', w')"
    by (metis prod_cases3)
  have 2: "r' = None" "used_in_relationships i' = 1" "length (sent w') = 1"
    using import_rows_csv_all[OF a2 e'] z by simp_all
  have s2: "import_rows_csv quiet_env UsedIn [?r1, ?bad, ?r3] ?s = (Some ValueError, i', w')"
    using import_rows_csv_stop[OF cl bad, of quiet_env "[?r1]" "[?r3]" ?s] e' 2(1)
    by (simp add: stopped_by_def)
  show ?thesis unfolding s1 s2 using 1 2 by simp
qed

section \<open>Properties of the rendering\<close>

subsection \<open>Escaping of string values\<close>

text \<open>
  The three replacements of \<open>escaped_value\<close> act on single characters, so together they map
  every character on its own. A value without a backslash is rendered as one literal.
\<close>

lemma replace_one_char:
  "replace [c] new s = concat (map (\<lambda>x. if x = c then new else [x]) s)"
  unfolding replace_def by (induction s) auto

lemma concat_map_concat_map:
  "concat (map g (concat (map f s))) = concat (map (\<lambda>x. concat (map g (f x))) s)"
  by (induction s) auto

lemma escaped_value_chars:
  "escaped_value s =
     concat (map (\<lambda>x. if x = dquote then [backslash, dquote]
                      else if x = newline then [backslash, CHR ''n'']
                      else if x = carriage_return then [backslash, CHR ''r'']
                      else [x]) s)"
  unfolding escaped_value_def replace_one_char concat_map_concat_map
  by (rule arg_cong[where f = concat], rule map_cong) auto

lemma closes_after_escape:
  "backslash \<notin> set s \<Longrightarrow>
   closes_at_end (concat (map (\<lambda>x. if x = dquote then [backslash, dquote]
                      else if x = newline then [backslash, CHR ''n'']
                      else if x = carriage_return then [backslash, CHR ''r'']
                      else [x]) s) @ [dquote])"
proof (induction s)
  case Nil
  then show ?case by simp
next
  case (Cons c s)
  let ?rest = "concat (map (\<lambda>x. if x = dquote then [backslash, dquote]
                      else if x = newline then [backslash, CHR ''n'']
                      else if x = carriage_return then [backslash, CHR ''r'']
                      else [x]) s) @ [dquote]"
  have ih: "closes_at_end ?rest" using Cons by simp
  obtain d r where r: "?rest = d # r" by (cases ?rest) auto
  show ?case using ih Cons.prems unfolding r
    by (auto simp: r[symmetric] simp del: closes_at_end.simps(3))
       (simp_all add: r)
qed

lemma literal_rtf_well_formed:
  "backslash \<notin> set s \<Longrightarrow> single_literal (literal_rtf (VStr s))"
  using closes_after_escape[of s] by (simp add: literal_rtf_def single_literal_def escaped_value_chars)

lemma literal_rtf_int: "literal_rtf (VInt i) = str_int i"
  by (simp add: literal_rtf_def py_str_def)


text \<open>
  Claim C1. String values are meant to be rendered as one string literal that cannot be left
  from inside. The rich-text importer escapes the quote, the newline and the carriage return
  but not the backslash: the value made of the letter \<open>a\<close> and one backslash is rendered
  as a quote, the letter, a backslash and a quote, where the backslash escapes the closing
  quote, so the literal is not closed. The plain-file importer does not escape anything: a quote in the
  value ends the literal. Integers are inserted without quotes by both.
\<close>

theorem backslash_breaks_literal:
  "literal_rtf (VStr [CHR ''a'', backslash]) = [dquote, CHR ''a'', backslash, dquote] \<and>
   \<not> single_literal (literal_rtf (VStr [CHR ''a'', backslash])) \<and>
   render_rtf ''{name: $name}'' (Some [(''name'', VStr [CHR ''a'', backslash])])
     = ''{name: '' @ [dquote, CHR ''a'', backslash, dquote] @ ''}'' \<and>
   format_param (''name'', VStr [CHR ''a'', dquote, CHR ''b''])
     = ''name='' @ [dquote, CHR ''a'', dquote, CHR ''b'', dquote] \<and>
   \<not> single_literal (drop 5 (format_param (''name'', VStr [CHR ''a'', dquote, CHR ''b''])))"
  by code_simp


text \<open>
  Claim C6. A list value is meant to be flattened to one quoted, comma-joined string by both
  importers. The plain-file importer does so. The rich-text importer has no branch for
  lists: the value takes the branch \<open>str(value)\<close> and is rendered as Python prints a list,
  with brackets and with quotes around each element.
\<close>

theorem list_value_rendering:
  "render_rtf ''tags: $tags'' (Some [(''tags'', VList [VStr ''a'', VStr ''b''])])
     = ''tags: ['' @ [CHR 0x27] @ ''a'' @ [CHR 0x27] @ '', '' @ [CHR 0x27] @ ''b'' @ [CHR 0x27] @ '']'' \<and>
   render_csv ''RETURN $tags'' (Some [(''tags'', VList [VStr ''a'', VStr ''b''])])
     = ''CYPHER tags='' @ [dquote] @ ''a,b'' @ [dquote] @ '' RETURN $tags''"
  by code_simp

subsection \<open>Substitution on delimited templates\<close>

lemma name_char_not_dollar: "is_name_char c \<Longrightarrow> c \<noteq> dollar"
  by (auto simp: is_name_char_def)

lemma is_name_no_dollar: "is_name n \<Longrightarrow> dollar \<notin> set n"
  using name_char_not_dollar by (auto simp: is_name_def)

lemma flatten_Cons: "flatten (p # t) = piece_text p @ flatten t" "flatten [] = []"
  by (simp_all add: flatten_def)

lemma scan_skip_text:
  "dollar \<notin> set s \<Longrightarrow>
   replace_scan (dollar # k) r (s @ x) = s @ replace_scan (dollar # k) r x"
  by (induction s) auto

lemma scan_hit:
  "replace_scan (dollar # k) r (dollar # k @ x) = r @ replace_scan (dollar # k) r x"
  by simp

lemma scan_miss:
  assumes "\<not> prefix k (n @ x)" "is_name n"
  shows "replace_scan (dollar # k) r (dollar # n @ x) = dollar # n @ replace_scan (dollar # k) r x"
  using assms scan_skip_text[OF is_name_no_dollar[OF assms(2)], of k r x] by simp

lemma after_hole_flatten:
  assumes "case t of [] \<Rightarrow> True | Text [] # r1 \<Rightarrow> False | Text (c # s) # r1 \<Rightarrow> \<not> is_name_char c
           | Hole m # r1 \<Rightarrow> False"
  shows "flatten t = [] \<or> (\<exists>c x. flatten t = c # x \<and> \<not> is_name_char c)"
proof (cases t)
  case Nil
  then show ?thesis by (simp add: flatten_Cons)
next
  case (Cons p r1)
  show ?thesis
  proof (cases p)
    case (Text s)
    then obtain c s' where "s = c # s'" "\<not> is_name_char c"
      using assms Cons by (cases s) auto
    then show ?thesis using Cons Text by (simp add: flatten_Cons)
  next
    case (Hole m)
    then show ?thesis using assms Cons by simp
  qed
qed

lemma no_overrun:
  assumes "is_name k" "\<not> prefix k n" "x = [] \<or> (\<exists>c y. x = c # y \<and> \<not> is_name_char c)"
  shows "\<not> prefix k (n @ x)"
proof
  assume "prefix k (n @ x)"
  then obtain us where us: "k = n @ us" "prefix us x" using assms(2) by (auto simp: prefix_append)
  have "us \<noteq> []" using us(1) assms(2) by auto
  then obtain u us' where u: "us = u # us'" by (cases us) auto
  then obtain y where "x = u # y" using us(2) by (cases x) auto
  then have "\<not> is_name_char u" using assms(3) by auto
  moreover have "is_name_char u" using assms(1) us(1) u by (simp add: is_name_def)
  ultimately show False by contradiction
qed

lemma scan_fill:
  "delimited t \<Longrightarrow> is_name k \<Longrightarrow> (\<forall>n. Hole n \<in> set t \<longrightarrow> prefix k n \<longrightarrow> n = k) \<Longrightarrow>
   replace_scan (dollar # k) r (flatten t) = flatten (fill k r t)"
proof (induction t rule: delimited.induct)
  case 1
  then show ?case by (simp add: flatten_def fill_def)
next
  case (2 s rest)
  then have "replace_scan (dollar # k) r (flatten rest) = flatten (fill k r rest)" by simp
  then show ?case using 2 scan_skip_text[of s k r "flatten rest"]
    by (simp add: flatten_Cons fill_def)
next
  case (3 n rest)
  then have ih: "replace_scan (dollar # k) r (flatten rest) = flatten (fill k r rest)" by simp
  have nm: "is_name n" using 3 by simp
  have ah: "flatten rest = [] \<or> (\<exists>c x. flatten rest = c # x \<and> \<not> is_name_char c)"
    using 3(2) after_hole_flatten[of rest] by simp
  show ?case
  proof (cases "n = k")
    case True
    then show ?thesis using ih scan_hit[of k r "flatten rest"]
      by (simp add: flatten_Cons fill_def)
  next
    case False
    then have "\<not> prefix k n" using 3(4) by auto
    then have "\<not> prefix k (n @ flatten rest)" using no_overrun[OF 3(3) _ ah] by simp
    then show ?thesis using False ih scan_miss[OF _ nm, of k "flatten rest" r]
      by (simp add: flatten_Cons fill_def)
  qed
qed

lemma delimited_fill: "delimited t \<Longrightarrow> dollar \<notin> set r \<Longrightarrow> delimited (fill k r t)"
proof (induction t rule: delimited.induct)
  case 1
  then show ?case by (simp add: fill_def)
next
  case (2 s rest)
  then show ?case by (simp add: fill_def)
next
  case (3 n rest)
  then have "delimited (fill k r rest)" by simp
  moreover have "(case fill k r rest of [] \<Rightarrow> True | Text [] # r1 \<Rightarrow> False
       | Text (c # s) # r1 \<Rightarrow> \<not> is_name_char c | Hole m # r1 \<Rightarrow> False)"
    using 3(2) by (auto simp: fill_def split: list.splits piece.splits)
  ultimately show ?case using 3(2,3) by (simp add: fill_def)
qed

lemma holes_fill: "Hole n \<in> set (fill k r t) \<Longrightarrow> Hole n \<in> set t \<and> n \<noteq> k"
  by (auto simp: fill_def split: if_splits)

lemma rendered_fill:
  "rendered rest (fill k (literal_rtf v) t) = rendered ((k, v) # rest) t"
  unfolding rendered_def fill_def
  by (induction t) (auto simp: resolve_def split: piece.splits)

lemma substitute_rendered:
  "sorted_wrt (\<lambda>a b. length (fst b) \<le> length (fst a)) kvs \<Longrightarrow> plain kvs \<Longrightarrow>
   delimited t \<Longrightarrow> apart kvs t \<Longrightarrow>
   substitute kvs (flatten t) = rendered kvs t"
proof (induction kvs arbitrary: t)
  case Nil
  have "rendered [] t = flatten t"
    unfolding rendered_def flatten_def by (induction t) (auto simp: resolve_def split: piece.splits)
  then show ?case by simp
next
  case (Cons kv rest)
  obtain k v where kv: "kv = (k, v)" by (cases kv)
  have nk: "is_name k" and nd: "dollar \<notin> set (literal_rtf v)"
    using Cons.prems(2) by (auto simp: plain_def kv)
  have only: "\<forall>n. Hole n \<in> set t \<longrightarrow> prefix k n \<longrightarrow> n = k"
  proof (intro allI impI)
    fix n assume h: "Hole n \<in> set t" and p: "prefix k n"
    from Cons.prems(4) h have "n \<in> fst ` set (kv # rest) \<or> (\<forall>x \<in> set (kv # rest). \<not> prefix (fst x) n)"
      by (auto simp: apart_def split: piece.splits)
    then have "n \<in> fst ` set (kv # rest)" using p kv by auto
    then have "n = k \<or> n \<in> fst ` set rest" using kv by auto
    then show "n = k"
    proof
      assume "n \<in> fst ` set rest"
      then have "length n \<le> length k" using Cons.prems(1) kv by auto
      then show "n = k" using p by (metis prefix_length_le prefix_order.eq_iff prefix_length_prefix order_refl le_antisym)
    qed simp
  qed
  let ?t = "fill k (literal_rtf v) t"
  have step: "replace (dollar # k) (literal_rtf v) (flatten t) = flatten ?t"
    using scan_fill[OF Cons.prems(3) nk only] by (simp add: replace_def)
  have d: "delimited ?t" using delimited_fill[OF Cons.prems(3) nd] .
  have a: "apart rest ?t"
    unfolding apart_def
  proof
    fix p assume p: "p \<in> set ?t"
    show "case p of Text s \<Rightarrow> True | Hole n \<Rightarrow> n \<in> fst ` set rest \<or> (\<forall>kv \<in> set rest. \<not> prefix (fst kv) n)"
    proof (cases p)
      case (Text s) then show ?thesis by simp
    next
      case (Hole n)
      with p holes_fill[of n k "literal_rtf v" t] have h: "Hole n \<in> set t" "n \<noteq> k" by auto
      from Cons.prems(4) h(1) have "n \<in> fst ` set (kv # rest) \<or> (\<forall>x \<in> set (kv # rest). \<not> prefix (fst x) n)"
        by (auto simp: apart_def split: piece.splits)
      then show ?thesis using h(2) kv Hole by auto
    qed
  qed
  have "substitute rest (flatten ?t) = rendered rest ?t"
    using Cons.IH[OF _ _ d a] Cons.prems(1,2) by (simp add: plain_def)
  then show ?case using step rendered_fill[of rest k v t] by (simp add: kv)
qed

lemma sorted_params_desc:
  "sorted_wrt (\<lambda>a b. length (fst b) \<le> length (fst a)) (sorted_params ps)"
proof -
  have "sorted (map (\<lambda>x. length (fst x)) (sort_key (\<lambda>x. length (fst x)) (rev ps)))"
    by (rule sorted_sort_key)
  then have "sorted_wrt (\<lambda>a b. length (fst a) \<le> length (fst b)) (sort_key (\<lambda>x. length (fst x)) (rev ps))"
    by (simp add: sorted_map)
  then show ?thesis unfolding sorted_params_def by (simp add: sorted_wrt_rev)
qed

lemma set_sorted_params: "set (sorted_params ps) = set ps"
  by (simp add: sorted_params_def)

lemma distinct_sorted_params: "distinct (map fst (sorted_params ps)) = distinct (map fst ps)"
  by (simp add: sorted_params_def distinct_map)

lemma rendered_cong: "map_of ps = map_of qs \<Longrightarrow> rendered ps t = rendered qs t"
proof -
  assume e: "map_of ps = map_of qs"
  show ?thesis unfolding rendered_def resolve_def e by (rule refl)
qed

lemma render_rtf_rendered:
  assumes "distinct (map fst ps)" "plain ps" "delimited t" "apart ps t"
  shows "render_rtf (flatten t) (Some ps) = rendered ps t"
proof -
  let ?s = "sorted_params ps"
  have "plain ?s" using assms(2) by (simp add: plain_def set_sorted_params)
  moreover have "apart ?s t" using assms(4) unfolding apart_def set_sorted_params .
  ultimately have 1: "substitute ?s (flatten t) = rendered ?s t"
    using substitute_rendered[OF sorted_params_desc _ assms(3)] by simp
  have "map_of ?s = map_of ps"
    using map_of_inject_set[of ?s ps] assms(1) distinct_sorted_params[of ps] set_sorted_params[of ps]
    by blast
  then have 2: "rendered ?s t = rendered ps t" by (rule rendered_cong)
  show ?thesis unfolding render_rtf_def using 1 2 by simp
qed






lemma fill_prefix_Cons:
  "fill_prefix k r (p # t) = hd (fill_prefix k r [p]) # fill_prefix k r t"
  "fill_prefix k r [] = []"
  by (simp_all add: fill_prefix_def)









text \<open>
  Claim C2, as amended. Take a delimited template, a mapping with distinct names that is
  plain and apart from the placeholders of the template, and in it two names of which one is
  a strict prefix of the other. For every ordering of the mapping the entries are
  substituted by descending length of the name, and the rendered query is the template with
  every known placeholder replaced by the literal of its own value; this holds for the two
  names in particular.
\<close>

theorem prefix_names_rendered_in_any_order:
  assumes "distinct (map fst ps)" "plain ps" "delimited t" "apart ps t"
    and "set ps' = set ps" "distinct (map fst ps')"
    and "(k1, v1) \<in> set ps" "(k2, v2) \<in> set ps" "strict_prefix k1 k2"
  shows "sorted_wrt (\<lambda>a b. length (fst b) \<le> length (fst a)) (sorted_params ps') \<and>
         render_rtf (flatten t) (Some ps') = rendered ps t \<and>
         resolve ps (Hole k1) = literal_rtf v1 \<and> resolve ps (Hole k2) = literal_rtf v2"
proof -
  have p: "plain ps'" using assms(2,5) by (simp add: plain_def)
  have a: "apart ps' t" using assms(4) unfolding apart_def assms(5) .
  have "map_of ps' = map_of ps" using map_of_inject_set[OF assms(6) assms(1)] assms(5) by simp
  then have "rendered ps' t = rendered ps t" by (rule rendered_cong)
  then have 1: "render_rtf (flatten t) (Some ps') = rendered ps t"
    using render_rtf_rendered[OF assms(6) p assms(3) a] by simp
  have 2: "resolve ps (Hole k1) = literal_rtf v1" "resolve ps (Hole k2) = literal_rtf v2"
    using assms(1,7,8) by (simp_all add: resolve_def)
  show ?thesis using 1 2 sorted_params_desc by simp
qed

theorem prefix_names_rendered_in_any_order_witness:
  "distinct (map fst [(''id'', VStr ''A''), (''id_extra'', VStr ''B'')]) \<and>
   plain [(''id'', VStr ''A''), (''id_extra'', VStr ''B'')] \<and>
   delimited [Text ''{a: '', Hole ''id'', Text '', b: '', Hole ''id_extra'', Text ''}''] \<and>
   apart [(''id'', VStr ''A''), (''id_extra'', VStr ''B'')]
     [Text ''{a: '', Hole ''id'', Text '', b: '', Hole ''id_extra'', Text ''}''] \<and>
   strict_prefix ''id'' ''id_extra'' \<and>
   render_rtf ''{a: $id, b: $id_extra}'' (Some [(''id'', VStr ''A''), (''id_extra'', VStr ''B'')])
     = ''{a: '' @ [dquote] @ ''A'' @ [dquote] @ '', b: '' @ [dquote] @ ''B'' @ [dquote] @ ''}'' \<and>
   render_rtf ''{a: $id, b: $id_extra}'' (Some [(''id_extra'', VStr ''B''), (''id'', VStr ''A'')])
     = ''{a: '' @ [dquote] @ ''A'' @ [dquote] @ '', b: '' @ [dquote] @ ''B'' @ [dquote] @ ''}''"
proof -
  let ?ps = "[(''id'', VStr ''A''), (''id_extra'', VStr ''B'')]"
  let ?qs = "[(''id_extra'', VStr ''B''), (''id'', VStr ''A'')]"
  let ?t = "[Text ''{a: '', Hole ''id'', Text '', b: '', Hole ''id_extra'', Text ''}'']"
  have h1: "distinct (map fst ?ps)" by simp
  have h2: "plain ?ps" by code_simp
  have h3: "delimited ?t" by code_simp
  have h4: "apart ?ps ?t" by code_simp
  have h5: "set ?qs = set ?ps" by auto
  have h5': "set ?ps = set ?ps" by simp
  have h6: "distinct (map fst ?qs)" by simp
  have h7: "(''id'', VStr ''A'') \<in> set ?ps" "(''id_extra'', VStr ''B'') \<in> set ?ps" by simp_all
  have h8: "strict_prefix ''id'' ''id_extra''" by (simp add: strict_prefix_def)
  have f: "flatten ?t = ''{a: $id, b: $id_extra}''" by (simp add: flatten_def)
  have r: "rendered ?ps ?t
        = ''{a: '' @ [dquote] @ ''A'' @ [dquote] @ '', b: '' @ [dquote] @ ''B'' @ [dquote] @ ''}''"
    by code_simp
  from prefix_names_rendered_in_any_order[OF h1 h2 h3 h4 h5 h6 h7 h8]
  have a: "render_rtf (flatten ?t) (Some ?qs) = rendered ?ps ?t" by blast
  from prefix_names_rendered_in_any_order[OF h1 h2 h3 h4 h5' h1 h7 h8]
  have b: "render_rtf (flatten ?t) (Some ?ps) = rendered ?ps ?t" by blast
  show ?thesis using a b h1 h2 h3 h4 h8 unfolding f r by simp
qed


text \<open>
  Claim C2 as stated fails without these conditions. With the names \<open>ab\<close> and \<open>ab5\<close> and the
  template \<open>$ab5 $ab$cde\<close>, the integer 5 that replaces \<open>$cde\<close> completes \<open>$ab\<close> to \<open>$ab5\<close>,
  which then receives the value of \<open>ab5\<close>. With the names \<open>id\<close> and \<open>id_extra\<close>, a value of
  \<open>id_extra\<close> that contains \<open>$id\<close> is substituted a second time.
\<close>

theorem prefix_names_counterexample:
  "render_rtf ''$ab5 $ab$cde'' (Some [(''cde'', VInt 5), (''ab5'', VStr ''X''), (''ab'', VStr ''Y'')])
     = [dquote] @ ''X'' @ [dquote] @ '' '' @ [dquote] @ ''X'' @ [dquote] \<and>
   render_rtf ''$id_extra $id'' (Some [(''id'', VStr ''A''), (''id_extra'', VStr ''$id'')])
     = [dquote, dquote] @ ''A'' @ [dquote, dquote] @ '' '' @ [dquote] @ ''A'' @ [dquote]"
  by code_simp






section \<open>Properties of the query interface\<close>

lemma keys_update: "keys (AList.update k v d) = insert k (keys d)"
  by (induction d) (auto simp: keys_def)

lemma fill_row_dict_keys:
  "\<forall>h \<in> set hs. hashable h \<Longrightarrow>
   \<exists>d'. fill_row_dict hs i (VList cells) d = Inr d' \<and>
        keys d' = keys d \<union> set (take (length cells - i) hs)"
proof (induction hs arbitrary: i d)
  case Nil
  then show ?case by simp
next
  case (Cons h hs)
  show ?case
  proof (cases "i < length cells")
    case True
    then obtain m where m: "length cells - i = Suc m" "length cells - (i + 1) = m"
      by (metis Suc_diff_Suc Suc_eq_plus1 diff_diff_left)
    from Cons.IH[of "i + 1" "AList.update h (py_item (VList cells) i) d"] Cons.prems
    obtain d' where "fill_row_dict hs (i + 1) (VList cells) (AList.update h (py_item (VList cells) i) d) = Inr d'"
      "keys d' = keys (AList.update h (py_item (VList cells) i) d) \<union> set (take (length cells - (i + 1)) hs)"
      by auto
    then show ?thesis using True Cons.prems m by (auto simp: keys_update)
  next
    case False
    then have z: "length cells - i = 0" "length cells - (i + 1) = 0" by simp_all
    from Cons.IH[of "i + 1" d] Cons.prems
    obtain d' where "fill_row_dict hs (i + 1) (VList cells) d = Inr d'"
      "keys d' = keys d \<union> set (take (length cells - (i + 1)) hs)"
      by auto
    then show ?thesis using False z by auto
  qed
qed

lemma format_rows_keys:
  "\<forall>h \<in> set hs. hashable h \<Longrightarrow>
   \<exists>ds. format_rows (VList hs) (map VList rs) = Inr ds \<and> length ds = length rs \<and>
        (\<forall>i < length rs. keys (ds ! i) = set (take (length (rs ! i)) hs))"
proof (induction rs)
  case Nil
  then show ?case by simp
next
  case (Cons r rs)
  from fill_row_dict_keys[OF Cons.prems, of 0 r "[]"]
  obtain d where d: "fill_row_dict hs 0 (VList r) [] = Inr d" "keys d = set (take (length r) hs)"
    by (auto simp: keys_def)
  from Cons.IH[OF Cons.prems] obtain ds where
    ds: "format_rows (VList hs) (map VList rs) = Inr ds" "length ds = length rs"
        "\<forall>i < length rs. keys (ds ! i) = set (take (length (rs ! i)) hs)"
    by auto
  have "format_rows (VList hs) (map VList (r # rs)) = Inr (d # ds)" using d ds by simp
  moreover have "\<forall>i < length (r # rs). keys ((d # ds) ! i) = set (take (length ((r # rs) ! i)) hs)"
    using d(2) ds(3) by (auto simp: nth_Cons split: nat.splits)
  ultimately show ?case using ds(2) by auto
qed

text \<open>
  Claim C10. \<open>query\<close> never raises: when the server raises, when anything in the formatting
  raises, and when the reply has fewer than two elements, the result is the empty list.
  When the reply is a list that starts with a list of headers and a list of rows, the result
  has one dictionary per row, and the keys of the dictionary of a row are the headers at the
  positions for which the row has a cell.
\<close>

theorem query_returns_rows_or_nothing:
  "(server env (sent w) (graph, q) = Inl msg \<longrightarrow> fst (query env graph q w) = []) \<and>
   (server env (sent w) (graph, q) = Inr result \<and> query_body result = Inl e \<longrightarrow>
      fst (query env graph q w) = []) \<and>
   (server env (sent w) (graph, q) = Inr result \<and> py_len result = Inr n \<and> n < 2 \<longrightarrow>
      fst (query env graph q w) = []) \<and>
   (server env (sent w) (graph, q) = Inr (VList (VList hs # VList (map VList rs) # rest)) \<and>
    (\<forall>h \<in> set hs. hashable h) \<longrightarrow>
      length (fst (query env graph q w)) = length rs \<and>
      (\<forall>i < length rs. keys (fst (query env graph q w) ! i) = set (take (length (rs ! i)) hs)))"
proof (intro conjI impI)
  assume "server env (sent w) (graph, q) = Inl msg"
  then show "fst (query env graph q w) = []" by (simp add: query_def)
next
  assume "server env (sent w) (graph, q) = Inr result \<and> query_body result = Inl e"
  then show "fst (query env graph q w) = []" by (simp add: query_def)
next
  assume "server env (sent w) (graph, q) = Inr result \<and> py_len result = Inr n \<and> n < 2"
  then show "fst (query env graph q w) = []" by (simp add: query_def query_body_def)
next
  assume a: "server env (sent w) (graph, q) = Inr (VList (VList hs # VList (map VList rs) # rest)) \<and>
    (\<forall>h \<in> set hs. hashable h)"
  from format_rows_keys[of hs rs] a obtain ds where
    ds: "format_rows (VList hs) (map VList rs) = Inr ds" "length ds = length rs"
        "\<forall>i < length rs. keys (ds ! i) = set (take (length (rs ! i)) hs)"
    by auto
  have "fst (query env graph q w) = ds" using a ds(1) by (simp add: query_def query_body_def)
  then show "length (fst (query env graph q w)) = length rs"
    and "\<forall>i < length rs. keys (fst (query env graph q w) ! i) = set (take (length (rs ! i)) hs)"
    using ds by simp_all
qed


theorem query_returns_rows_or_nothing_witness:
  "fst (query failing_env ''g'' ''MATCH (n) RETURN n'' fresh_world) = [] \<and>
   fst (query (reply_env (VList [VInt 1, VInt 2])) ''g'' ''MATCH (n) RETURN n'' fresh_world) = [] \<and>
   fst (query (reply_env (VList [VStr ''Nodes created: 1''])) ''g'' ''CREATE (n)'' fresh_world) = [] \<and>
   length (fst (query (reply_env (VList (VList [VStr ''a'', VStr ''b'']
        # VList (map VList [[VInt 1, VInt 2], [VInt 3]]) # [VList []])))
        ''g'' ''MATCH (n) RETURN n.a, n.b'' fresh_world)) = 2 \<and>
   keys (fst (query (reply_env (VList (VList [VStr ''a'', VStr ''b'']
        # VList (map VList [[VInt 1, VInt 2], [VInt 3]]) # [VList []])))
        ''g'' ''MATCH (n) RETURN n.a, n.b'' fresh_world) ! 1) = {VStr ''a''}"
proof -
  let ?q = "''MATCH (n) RETURN n''" and ?q2 = "''MATCH (n) RETURN n.a, n.b''"
  let ?good = "VList (VList [VStr ''a'', VStr ''b''] # VList (map VList [[VInt 1, VInt 2], [VInt 3]]) # [VList []])"
  have 1: "server failing_env (sent fresh_world) (''g'', ?q) = Inl ''Connection refused''"
    by (simp add: failing_env_def)
  have 2: "server (reply_env (VList [VInt 1, VInt 2])) (sent fresh_world) (''g'', ?q)
             = Inr (VList [VInt 1, VInt 2]) \<and> query_body (VList [VInt 1, VInt 2]) = Inl TypeError"
    by (simp add: reply_env_def query_body_def)
  have 3: "server (reply_env (VList [VStr ''Nodes created: 1''])) (sent fresh_world) (''g'', ''CREATE (n)'')
             = Inr (VList [VStr ''Nodes created: 1'']) \<and>
           py_len (VList [VStr ''Nodes created: 1'']) = Inr 1 \<and> (1::nat) < 2"
    by (simp add: reply_env_def)
  have 4: "server (reply_env ?good) (sent fresh_world) (''g'', ?q2) = Inr ?good \<and>
           (\<forall>h \<in> set [VStr ''a'', VStr ''b'']. hashable h)"
    by (simp add: reply_env_def)
  note t = query_returns_rows_or_nothing
  from t[where env = failing_env and w = fresh_world and graph = "''g''" and q = ?q
            and msg = "''Connection refused''"] 1
  have a: "fst (query failing_env ''g'' ?q fresh_world) = []" by blast
  from t[where env = "reply_env (VList [VInt 1, VInt 2])" and w = fresh_world and graph = "''g''"
            and q = ?q and result = "VList [VInt 1, VInt 2]" and e = TypeError] 2
  have b: "fst (query (reply_env (VList [VInt 1, VInt 2])) ''g'' ?q fresh_world) = []" by blast
  from t[where env = "reply_env (VList [VStr ''Nodes created: 1''])" and w = fresh_world
            and graph = "''g''" and q = "''CREATE (n)''"
            and result = "VList [VStr ''Nodes created: 1'']" and n = 1] 3
  have c: "fst (query (reply_env (VList [VStr ''Nodes created: 1''])) ''g'' ''CREATE (n)'' fresh_world) = []"
    by blast
  from t[where env = "reply_env ?good" and w = fresh_world and graph = "''g''" and q = ?q2
            and hs = "[VStr ''a'', VStr ''b'']" and rs = "[[VInt 1, VInt 2], [VInt 3]]"
            and rest = "[VList []]"] 4
  have d: "length (fst (query (reply_env ?good) ''g'' ?q2 fresh_world)) = length [[VInt 1, VInt 2], [VInt 3]]"
    and d': "\<forall>i < length [[VInt 1, VInt 2], [VInt 3]].
          keys (fst (query (reply_env ?good) ''g'' ?q2 fresh_world) ! i)
            = set (take (length ([[VInt 1, VInt 2], [VInt 3]] ! i)) [VStr ''a'', VStr ''b''])"
    by blast+
  from d' have "keys (fst (query (reply_env ?good) ''g'' ?q2 fresh_world) ! 1)
            = set (take (length ([[VInt 1, VInt 2], [VInt 3]] ! 1)) [VStr ''a'', VStr ''b''])"
    by simp
  then have e: "keys (fst (query (reply_env ?good) ''g'' ?q2 fresh_world) ! 1) = {VStr ''a''}"
    by simp
  show ?thesis using a b c d e by simp
qed

section \<open>Properties of the two sources of rows\<close>

subsection \<open>Lines of the plain file\<close>

lemma file_lines_from_line:
  "newline \<notin> set l \<Longrightarrow> carriage_return \<notin> set l \<Longrightarrow>
   file_lines_from cur (l @ newline # rest) = (cur @ l @ [newline]) # file_lines_from [] rest"
proof (induction l arbitrary: cur)
  case Nil
  then show ?case by (cases rest) simp_all
next
  case (Cons c l)
  obtain d r where dr: "l @ newline # rest = d # r" by (cases l) auto
  have "c \<noteq> newline" "c \<noteq> carriage_return" using Cons.prems by auto
  then have "file_lines_from cur (c # d # r) = file_lines_from (cur @ [c]) (d # r)"
    by simp
  then show ?case using Cons.IH[of "cur @ [c]"] Cons.prems dr by simp
qed

lemma file_lines_payload:
  "\<forall>l \<in> set ls. newline \<notin> set l \<and> carriage_return \<notin> set l \<Longrightarrow>
   file_lines_from [] (payload_of ls) = map (\<lambda>l. l @ [newline]) ls"
proof (induction ls)
  case Nil
  then show ?case by (simp add: payload_of_def)
next
  case (Cons l ls)
  have "payload_of (l # ls) = l @ newline # payload_of ls" by (simp add: payload_of_def)
  then show ?case using Cons file_lines_from_line[of l "[]" "payload_of ls"] by simp
qed

subsection \<open>The reader on lines without quotes\<close>

lemma process_plain_char:
  "unquoted r \<Longrightarrow> c \<noteq> dquote \<Longrightarrow> c \<noteq> newline \<Longrightarrow> c \<noteq> carriage_return \<Longrightarrow>
   parse_process_char r (Some c) = Inr r1 \<Longrightarrow> unquoted r1"
  by (auto simp: unquoted_def parse_process_char_def start_field_def is_eol_def parse_add_char_def
        parse_save_field_def split: parse_state.splits if_splits)

lemma feed_chars_unquoted:
  "unquoted r \<Longrightarrow> dquote \<notin> set l \<Longrightarrow> newline \<notin> set l \<Longrightarrow> carriage_return \<notin> set l \<Longrightarrow>
   feed_chars r l = Inr r1 \<Longrightarrow> unquoted r1"
proof (induction l arbitrary: r)
  case Nil
  then show ?case by simp
next
  case (Cons c l)
  from Cons.prems(5) obtain r2 where r2: "parse_process_char r (Some c) = Inr r2"
    "feed_chars r2 l = Inr r1"
    by (auto split: sum.splits)
  have "unquoted r2" using process_plain_char[OF Cons.prems(1) _ _ _ r2(1)] Cons.prems by auto
  then show ?case using Cons.IH[OF _ _ _ _ r2(2)] Cons.prems by auto
qed

lemma feed_chars_append:
  "feed_chars r (a @ b) = (case feed_chars r a of Inl e \<Rightarrow> Inl e | Inr r1 \<Rightarrow> feed_chars r1 b)"
  by (induction a arbitrary: r) (auto split: sum.splits)

lemma line_end_unquoted:
  "unquoted r \<Longrightarrow>
   (case parse_process_char r (Some newline) of Inl e \<Rightarrow> Inl e
    | Inr r1 \<Rightarrow> parse_process_char r1 None) = parse_process_char r None"
  by (auto simp: unquoted_def parse_process_char_def start_field_def is_eol_def
        after_line_end_def parse_save_field_def)

lemma line_end_state:
  "unquoted r \<Longrightarrow> parse_process_char r None = Inr r1 \<Longrightarrow> state r1 = START_RECORD"
  by (auto simp: unquoted_def parse_process_char_def start_field_def is_eol_def
        after_line_end_def parse_save_field_def)

lemma feed_line_newline:
  assumes "dquote \<notin> set l" "newline \<notin> set l" "carriage_return \<notin> set l"
  shows "feed_line parse_reset (l @ [newline]) = feed_line parse_reset l"
proof (cases "feed_chars parse_reset l")
  case (Inl e)
  then show ?thesis by (simp add: feed_line_def feed_chars_append)
next
  case (Inr r1)
  have "unquoted parse_reset" by (simp add: unquoted_def parse_reset_def)
  then have u: "unquoted r1" using feed_chars_unquoted[OF _ assms Inr] by simp
  have 1: "feed_line parse_reset l = parse_process_char r1 None"
    using Inr by (simp add: feed_line_def)
  show ?thesis
  proof (cases "parse_process_char r1 (Some newline)")
    case (Inl e)
    then have "feed_line parse_reset (l @ [newline]) = Inl e"
      using Inr by (simp add: feed_line_def feed_chars_append)
    moreover have "parse_process_char r1 None = Inl e"
      using line_end_unquoted[OF u] Inl by simp
    ultimately show ?thesis using 1 by simp
  next
    case (Inr r2)
    then have "feed_line parse_reset (l @ [newline]) = parse_process_char r2 None"
      using \<open>feed_chars parse_reset l = Inr r1\<close> by (simp add: feed_line_def feed_chars_append)
    moreover have "parse_process_char r2 None = parse_process_char r1 None"
      using line_end_unquoted[OF u] Inr by simp
    ultimately show ?thesis using 1 by simp
  qed
qed

lemma feed_line_done:
  assumes "dquote \<notin> set l" "newline \<notin> set l" "carriage_return \<notin> set l"
    and "feed_line parse_reset l = Inr r1"
  shows "state r1 = START_RECORD"
proof -
  from assms(4) obtain r0 where r0: "feed_chars parse_reset l = Inr r0"
    "parse_process_char r0 None = Inr r1"
    by (auto simp: feed_line_def split: sum.splits)
  have "unquoted parse_reset" by (simp add: unquoted_def parse_reset_def)
  then have "unquoted r0" using feed_chars_unquoted[OF _ assms(1,2,3) r0(1)] by simp
  then show ?thesis using line_end_state r0(2) by simp
qed

lemma read_records_newlines:
  "\<forall>l \<in> set ls. dquote \<notin> set l \<and> newline \<notin> set l \<and> carriage_return \<notin> set l \<Longrightarrow>
   read_records parse_reset (map (\<lambda>l. l @ [newline]) ls) = read_records parse_reset ls"
proof (induction ls)
  case Nil
  then show ?case by simp
next
  case (Cons l ls)
  have l: "dquote \<notin> set l" "newline \<notin> set l" "carriage_return \<notin> set l" using Cons.prems by auto
  have ih: "read_records parse_reset (map (\<lambda>l. l @ [newline]) ls) = read_records parse_reset ls"
    using Cons by simp
  show ?case
  proof (cases "feed_line parse_reset l")
    case (Inl e)
    then show ?thesis using feed_line_newline[OF l] by simp
  next
    case (Inr r1)
    then have "state r1 = START_RECORD" using feed_line_done[OF l] by simp
    then show ?thesis using Inr feed_line_newline[OF l] ih by simp
  qed
qed

subsection \<open>Recovery of a wrapped payload\<close>

lemma rtf_escape_append: "rtf_escape (a @ b) = rtf_escape a @ rtf_escape b"
  by (simp add: rtf_escape_def)

lemma rtf_escape_plain:
  "backslash \<notin> set l \<Longrightarrow> lbrace \<notin> set l \<Longrightarrow> rbrace \<notin> set l \<Longrightarrow> newline \<notin> set l \<Longrightarrow>
   rtf_escape l = l"
  unfolding rtf_escape_def by (induction l) auto

lemma rtf_escape_payload:
  "\<forall>l \<in> set ls. clean_line l \<Longrightarrow>
   rtf_escape (payload_of ls) = concat (map (\<lambda>l. l @ [backslash, newline]) ls)"
proof (induction ls)
  case Nil
  then show ?case by (simp add: payload_of_def rtf_escape_def)
next
  case (Cons l ls)
  have "rtf_escape l = l" using Cons.prems by (intro rtf_escape_plain) (auto simp: clean_line_def)
  moreover have "rtf_escape (newline # payload_of ls) = backslash # newline # rtf_escape (payload_of ls)"
    by (simp add: rtf_escape_def)
  moreover have "payload_of (l # ls) = l @ newline # payload_of ls" by (simp add: payload_of_def)
  ultimately show ?case using Cons by (simp add: rtf_escape_append)
qed

lemma unescape_lines:
  "\<forall>l \<in> set ls. clean_line l \<Longrightarrow>
   filter (\<lambda>c. c \<noteq> lbrace \<and> c \<noteq> rbrace)
     (replace [backslash] [newline] (concat (map (\<lambda>l. l @ [backslash, newline]) ls)))
   = concat (map (\<lambda>l. l @ [newline, newline]) ls)"
proof (induction ls)
  case Nil
  then show ?case by (simp add: replace_one_char)
next
  case (Cons l ls)
  have c: "backslash \<notin> set l" "lbrace \<notin> set l" "rbrace \<notin> set l"
    using Cons.prems by (auto simp: clean_line_def)
  have 1: "concat (map (\<lambda>x. if x = backslash then [newline] else [x]) l) = l"
    using c(1) by (induction l) auto
  have 2: "filter (\<lambda>c. c \<noteq> lbrace \<and> c \<noteq> rbrace) l = l" using c(2,3) by (induction l) auto
  show ?case using Cons 1 2 by (simp add: replace_one_char)
qed

lemma strip_clean: "clean_line l \<Longrightarrow> strip l = l"
proof -
  assume c: "clean_line l"
  then have 1: "dropWhile is_space l = l" by (intro dropWhile_id) (simp add: clean_line_def)
  have "hd (rev l) = last l" using c by (simp add: clean_line_def hd_rev)
  then have 2: "dropWhile is_space (rev l) = rev l"
    using c by (intro dropWhile_id) (simp add: clean_line_def)
  show ?thesis unfolding strip_def 1 2 by simp
qed

lemma strip_trailing_newlines:
  assumes "s \<noteq> []" "\<not> is_space (hd s)" "\<not> is_space (last s)"
  shows "strip (s @ [newline, newline]) = s"
proof -
  have sp: "is_space newline" by (simp add: is_space_def)
  have 1: "dropWhile is_space (s @ [newline, newline]) = s @ [newline, newline]"
    using assms(1,2) by (intro dropWhile_id) simp
  have "hd (rev s) = last s" using assms(1) by (simp add: hd_rev)
  then have "dropWhile is_space (rev s) = rev s" using assms(3) by (intro dropWhile_id) simp
  then have 2: "dropWhile is_space (rev (s @ [newline, newline])) = rev s" using sp by simp
  show ?thesis unfolding strip_def 1 2 by simp
qed

lemma split_on_line:
  "newline \<notin> set l \<Longrightarrow> split_on newline (l @ newline # rest) = l # split_on newline rest"
  by (induction l) (auto simp: Let_def)

lemma split_on_last: "newline \<notin> set l \<Longrightarrow> split_on newline l = [l]"
  by (induction l) (auto simp: Let_def)

lemma split_doubled:
  "\<forall>l \<in> set (ls @ [ln]). newline \<notin> set l \<Longrightarrow>
   split_on newline (concat (map (\<lambda>l. l @ [newline, newline]) ls) @ ln)
     = concat (map (\<lambda>l. [l, []]) ls) @ [ln]"
proof (induction ls)
  case Nil
  then show ?case by (simp add: split_on_last)
next
  case (Cons l ls)
  have n: "newline \<notin> set l" using Cons.prems by simp
  have "split_on newline (l @ newline # newline # concat (map (\<lambda>l. l @ [newline, newline]) ls) @ ln)
        = l # [] # split_on newline (concat (map (\<lambda>l. l @ [newline, newline]) ls) @ ln)"
    using split_on_line[OF n] split_on_line[of "[]"] by simp
  then show ?case using Cons by simp
qed

lemma keep_lines:
  "\<forall>l \<in> set (ls @ [ln]). clean_line l \<Longrightarrow>
   map strip (filter (\<lambda>line. strip line \<noteq> []) (concat (map (\<lambda>l. [l, []]) ls) @ [ln]))
     = ls @ [ln]"
proof (induction ls)
  case Nil
  then show ?case using strip_clean[of ln] by (auto simp: clean_line_def)
next
  case (Cons l ls)
  have "strip l = l" "l \<noteq> []" using Cons.prems strip_clean[of l] by (auto simp: clean_line_def)
  moreover have "strip [] = []" by (simp add: strip_def)
  ultimately show ?case using Cons by simp
qed

lemma doubled_hd_last:
  assumes "\<forall>l \<in> set (ls @ [ln]). clean_line l"
  shows "concat (map (\<lambda>l. l @ [newline, newline]) ls) @ ln \<noteq> [] \<and>
         \<not> is_space (hd (concat (map (\<lambda>l. l @ [newline, newline]) ls) @ ln)) \<and>
         \<not> is_space (last (concat (map (\<lambda>l. l @ [newline, newline]) ls) @ ln))"
proof -
  have ln: "ln \<noteq> []" "\<not> is_space (hd ln)" "\<not> is_space (last ln)"
    using assms by (auto simp: clean_line_def)
  show ?thesis
  proof (cases ls)
    case Nil
    then show ?thesis using ln by simp
  next
    case (Cons l ls')
    then have "l \<noteq> []" "\<not> is_space (hd l)" using assms by (auto simp: clean_line_def)
    then show ?thesis using ln Cons by simp
  qed
qed

lemma payload_lines_escaped:
  assumes "\<forall>l \<in> set ls. clean_line l" "ls \<noteq> []"
  shows "payload_lines (concat (map (\<lambda>l. l @ [backslash, newline]) ls)) = ls"
proof -
  obtain ls' ln where ls: "ls = ls' @ [ln]" using assms(2) by (metis rev_exhaust)
  let ?s = "concat (map (\<lambda>l. l @ [newline, newline]) ls') @ ln"
  have c: "\<forall>l \<in> set (ls' @ [ln]). clean_line l" using assms(1) ls by simp
  have n: "\<forall>l \<in> set (ls' @ [ln]). newline \<notin> set l" using c by (auto simp: clean_line_def)
  have 1: "concat (map (\<lambda>l. l @ [newline, newline]) ls) = ?s @ [newline, newline]"
    by (simp add: ls)
  have 2: "strip (?s @ [newline, newline]) = ?s"
    using doubled_hd_last[OF c] by (intro strip_trailing_newlines) auto
  have "payload_lines (concat (map (\<lambda>l. l @ [backslash, newline]) ls))
        = map strip (filter (\<lambda>line. strip line \<noteq> [])
            (split_on newline (strip (concat (map (\<lambda>l. l @ [newline, newline]) ls)))))"
    unfolding payload_lines_def Let_def unescape_lines[OF assms(1)] by (rule refl)
  also have "\<dots> = map strip (filter (\<lambda>line. strip line \<noteq> []) (split_on newline ?s))"
    unfolding 1 2 by (rule refl)
  also have "\<dots> = ls' @ [ln]"
    unfolding split_doubled[OF n] keep_lines[OF c] by (rule refl)
  finally show ?thesis using ls by simp
qed

lemma header_no_marker: "\<not> occurs_in marker (rtf_header @ butlast marker)"
  by (simp add: rtf_header_def marker_def)

lemma extract_wrap:
  assumes "\<forall>l \<in> set ls. clean_line l"
  shows "extract_csv_from_rtf (rtf_wrap (payload_of ls)) = ls"
proof (cases ls)
  case Nil
  have "findall (rtf_header @ marker @ [rbrace]) = []"
    by (simp add: rtf_header_def marker_def match_at_def)
  then show ?thesis using Nil
    by (simp add: rtf_wrap_def payload_of_def rtf_escape_def extract_csv_from_rtf_def)
next
  case (Cons l ls')
  let ?e = "concat (map (\<lambda>l. l @ [backslash, newline]) ls)"
  have e: "rtf_escape (payload_of ls) = ?e" using rtf_escape_payload[OF assms] .
  have "l \<noteq> []" using assms Cons by (auto simp: clean_line_def)
  then obtain c body where cb: "?e = c # body" using Cons by (cases l) auto
  have "rbrace \<notin> set ?e" using assms by (auto simp: clean_line_def)
  then have nb: "rbrace \<notin> set body" using cb by auto
  have "findall (rtf_header @ marker @ c # body @ rbrace # []) = (c # body) # findall []"
    using findall_first_run[OF header_no_marker nb] .
  then have "findall (rtf_wrap (payload_of ls)) = [?e]"
    by (simp add: rtf_wrap_def e cb)
  then show ?thesis
    using payload_lines_escaped[OF assms] Cons by (simp add: extract_csv_from_rtf_def)
qed

subsection \<open>The reader only hands out characters it was given\<close>

lemma process_char_chars:
  "parse_process_char r c = Inr r1 \<Longrightarrow> reader_chars r1 \<subseteq> reader_chars r \<union> set_option c"
  by (cases c)
     (auto simp: parse_process_char_def start_field_def parse_add_char_def parse_save_field_def
        reader_chars_def is_eol_def split: parse_state.splits if_splits)

lemma feed_chars_chars:
  "feed_chars r l = Inr r1 \<Longrightarrow> reader_chars r1 \<subseteq> reader_chars r \<union> set l"
proof (induction l arbitrary: r)
  case Nil
  then show ?case by simp
next
  case (Cons c l)
  from Cons.prems obtain r2 where r2: "parse_process_char r (Some c) = Inr r2"
    "feed_chars r2 l = Inr r1"
    by (auto split: sum.splits)
  have "reader_chars r2 \<subseteq> reader_chars r \<union> {c}" using process_char_chars[OF r2(1)] by simp
  moreover have "reader_chars r1 \<subseteq> reader_chars r2 \<union> set l" using Cons.IH[OF r2(2)] .
  ultimately show ?case by auto
qed

lemma feed_line_chars:
  "feed_line r l = Inr r1 \<Longrightarrow> reader_chars r1 \<subseteq> reader_chars r \<union> set l"
proof -
  assume "feed_line r l = Inr r1"
  then obtain r0 where r0: "feed_chars r l = Inr r0" "parse_process_char r0 None = Inr r1"
    by (auto simp: feed_line_def split: sum.splits)
  have "reader_chars r1 \<subseteq> reader_chars r0" using process_char_chars[OF r0(2)] by simp
  then show ?thesis using feed_chars_chars[OF r0(1)] by auto
qed

lemma fields_in_reader_chars: "f \<in> set (fields_acc r) \<Longrightarrow> set f \<subseteq> reader_chars r"
  by (auto simp: reader_chars_def)

lemma read_records_chars:
  "row \<in> set (fst (read_records r lines)) \<Longrightarrow> f \<in> set row \<Longrightarrow>
   set f \<subseteq> reader_chars r \<union> \<Union> (set ` set lines)"
proof (induction lines arbitrary: r)
  case Nil
  then have "f \<in> set (fields_acc (parse_save_field r))" by (auto split: if_splits)
  then have "set f \<subseteq> reader_chars (parse_save_field r)" by (rule fields_in_reader_chars)
  moreover have "reader_chars (parse_save_field r) = reader_chars r"
    by (auto simp: reader_chars_def parse_save_field_def)
  ultimately show ?case by simp
next
  case (Cons l lines)
  show ?case
  proof (cases "feed_line r l")
    case (Inl e)
    then show ?thesis using Cons.prems by simp
  next
    case (Inr r1)
    have c1: "reader_chars r1 \<subseteq> reader_chars r \<union> set l" using feed_line_chars[OF Inr] .
    show ?thesis
    proof (cases "state r1 = START_RECORD")
      case True
      then have "row = fields_acc r1 \<or> row \<in> set (fst (read_records parse_reset lines))"
        using Cons.prems(1) Inr by (auto split: prod.splits)
      then show ?thesis
      proof
        assume "row = fields_acc r1"
        then have "set f \<subseteq> reader_chars r1" using Cons.prems(2) fields_in_reader_chars by simp
        then show ?thesis using c1 by auto
      next
        assume "row \<in> set (fst (read_records parse_reset lines))"
        then have "set f \<subseteq> reader_chars parse_reset \<union> \<Union> (set ` set lines)"
          using Cons.IH Cons.prems(2) by simp
        moreover have "reader_chars parse_reset = {}" by (simp add: reader_chars_def parse_reset_def)
        ultimately show ?thesis by auto
      qed
    next
      case False
      then have "row \<in> set (fst (read_records r1 lines))" using Cons.prems(1) Inr by simp
      then have "set f \<subseteq> reader_chars r1 \<union> \<Union> (set ` set lines)"
        using Cons.IH Cons.prems(2) by simp
      then show ?thesis using c1 by auto
    qed
  qed
qed

lemma csv_reader_chars:
  "row \<in> set (fst (csv_reader lines)) \<Longrightarrow> f \<in> set row \<Longrightarrow> set f \<subseteq> \<Union> (set ` set lines)"
  using read_records_chars[of row parse_reset lines f]
  by (simp add: csv_reader_def reader_chars_def parse_reset_def)

subsection \<open>Byte-order marks\<close>

lemma lstrip_bom_id: "bom \<notin> set s \<Longrightarrow> lstrip_bom s = s"
  unfolding lstrip_bom_def by (cases s) auto

lemma clean_fieldnames_id: "\<forall>f \<in> set names. bom \<notin> set f \<Longrightarrow> clean_fieldnames names = names"
  unfolding clean_fieldnames_def using lstrip_bom_id by (simp add: map_idI)

lemma decode_payload:
  "\<forall>l \<in> set ls. clean_line l \<Longrightarrow> decode_utf8_sig (payload_of ls) = payload_of ls"
proof (cases ls)
  case Nil
  then show ?thesis by (simp add: decode_utf8_sig_def payload_of_def)
next
  case (Cons l ls')
  assume "\<forall>l \<in> set ls. clean_line l"
  then have "l \<noteq> []" "bom \<notin> set l" using Cons by (auto simp: clean_line_def)
  then obtain c r where cr: "l = c # r" "c \<noteq> bom" by (cases l) auto
  then show ?thesis using Cons by (simp add: decode_utf8_sig_def payload_of_def)
qed

lemma dict_reader_renamed_plain:
  assumes "\<forall>l \<in> set lines. bom \<notin> set l"
  shows "dict_reader_renamed clean_fieldnames lines = dict_reader lines"
proof (cases "csv_reader lines")
  case (Pair recs e)
  show ?thesis
  proof (cases recs)
    case Nil
    then show ?thesis using Pair by (simp add: dict_reader_renamed_def dict_reader_def)
  next
    case (Cons names records)
    have "\<forall>f \<in> set names. bom \<notin> set f"
    proof
      fix f assume f: "f \<in> set names"
      have "names \<in> set (fst (csv_reader lines))" using Pair Cons by simp
      then have "set f \<subseteq> \<Union> (set ` set lines)" using csv_reader_chars f by blast
      then show "bom \<notin> set f" using assms by auto
    qed
    then have "clean_fieldnames names = names" by (rule clean_fieldnames_id)
    then show ?thesis using Pair Cons by (simp add: dict_reader_renamed_def dict_reader_def)
  qed
qed

subsection \<open>Rows that cleaning leaves alone\<close>

lemma update_fresh: "k \<notin> fst ` set al \<Longrightarrow> AList.update k v al = al @ [(k, v)]"
  by (induction al) auto

lemma clean_items_id:
  "distinct (map fst (acc @ d)) \<Longrightarrow>
   \<forall>kv \<in> set d. \<exists>s. fst kv = VStr s \<and> bom \<notin> set s \<Longrightarrow>
   clean_items d acc = Inr (acc @ d)"
proof (induction d arbitrary: acc)
  case Nil
  then show ?case by simp
next
  case (Cons kv d)
  obtain k v where kv: "kv = (k, v)" by (cases kv)
  from Cons.prems(2) kv obtain s where s: "k = VStr s" "bom \<notin> set s" by auto
  have fresh: "k \<notin> fst ` set acc" using Cons.prems(1) kv by auto
  have "clean_items (kv # d) acc = clean_items d (AList.update (VStr s) v acc)"
    using kv s lstrip_bom_id[OF s(2)] by simp
  also have "AList.update (VStr s) v acc = acc @ [(k, v)]" using update_fresh[OF fresh] s by simp
  also have "clean_items d (acc @ [(k, v)]) = Inr ((acc @ [(k, v)]) @ d)"
    using Cons.IH[of "acc @ [(k, v)]"] Cons.prems kv by simp
  finally show ?case using kv by simp
qed

lemma distinct_fold_cells:
  "distinct (map fst d) \<Longrightarrow>
   distinct (map fst (fold (\<lambda>kv d. AList.update (VStr (fst kv)) (VStr (snd kv)) d) xs d))"
  by (induction xs arbitrary: d) (simp_all add: distinct_update)

lemma distinct_fold_missing:
  "distinct (map fst d) \<Longrightarrow>
   distinct (map fst (fold (\<lambda>key d. AList.update (VStr key) VNone d) xs d))"
  by (induction xs arbitrary: d) (simp_all add: distinct_update)

lemma distinct_make_row: "distinct (map fst (make_row h r))"
  unfolding make_row_def Let_def
  using distinct_fold_cells[of "[]" "zip h r"]
  by (simp add: distinct_update distinct_fold_missing)

lemma keys_fold_cells:
  "keys (fold (\<lambda>kv d. AList.update (VStr (fst kv)) (VStr (snd kv)) d) xs d)
     \<subseteq> keys d \<union> VStr ` fst ` set xs"
proof (induction xs arbitrary: d)
  case Nil
  then show ?case by simp
next
  case (Cons x xs)
  have "keys (fold (\<lambda>kv d. AList.update (VStr (fst kv)) (VStr (snd kv)) d) xs
               (AList.update (VStr (fst x)) (VStr (snd x)) d))
        \<subseteq> keys (AList.update (VStr (fst x)) (VStr (snd x)) d) \<union> VStr ` fst ` set xs"
    using Cons.IH .
  then show ?case by (auto simp: keys_update)
qed

lemma keys_fold_missing:
  "keys (fold (\<lambda>key d. AList.update (VStr key) VNone d) xs d) \<subseteq> keys d \<union> VStr ` set xs"
proof (induction xs arbitrary: d)
  case Nil
  then show ?case by simp
next
  case (Cons x xs)
  have "keys (fold (\<lambda>key d. AList.update (VStr key) VNone d) xs (AList.update (VStr x) VNone d))
        \<subseteq> keys (AList.update (VStr x) VNone d) \<union> VStr ` set xs"
    using Cons.IH .
  then show ?case by (auto simp: keys_update)
qed

lemma keys_make_row: "keys (make_row h r) \<subseteq> insert VNone (VStr ` set h)"
proof -
  let ?d = "fold (\<lambda>kv d. AList.update (VStr (fst kv)) (VStr (snd kv)) d) (zip h r) []"
  let ?e = "fold (\<lambda>key d. AList.update (VStr key) VNone d) (drop (length r) h) ?d"
  have "fst ` set (zip h r) \<subseteq> set h" by (auto dest: set_zip_leftD)
  then have z: "VStr ` fst ` set (zip h r) \<subseteq> VStr ` set h" by (rule image_mono)
  have k0: "keys ([] :: pydict) = {}" by (simp add: keys_def)
  have "keys ?d \<subseteq> keys [] \<union> VStr ` fst ` set (zip h r)" by (rule keys_fold_cells)
  then have 1: "keys ?d \<subseteq> VStr ` set h" using z unfolding k0 by (meson Un_least empty_subsetI subset_trans)
  have "set (drop (length r) h) \<subseteq> set h" by (rule set_drop_subset)
  then have y: "VStr ` set (drop (length r) h) \<subseteq> VStr ` set h" by (rule image_mono)
  have "keys ?e \<subseteq> keys ?d \<union> VStr ` set (drop (length r) h)" by (rule keys_fold_missing)
  then have 2: "keys ?e \<subseteq> VStr ` set h" using 1 y by (meson Un_least subset_trans)
  have 3: "keys (AList.update VNone (VList (map VStr (drop (length h) r))) ?d)
             \<subseteq> insert VNone (VStr ` set h)"
    unfolding keys_update using 1 by (rule insert_mono)
  have "make_row h r = (if length h < length r
          then AList.update VNone (VList (map VStr (drop (length h) r))) ?d else ?e)"
    by (simp add: make_row_def Let_def)
  then show ?thesis
  proof (cases "length h < length r")
    case True
    then show ?thesis using 3 \<open>make_row h r = _\<close> by simp
  next
    case False
    have "keys ?e \<subseteq> insert VNone (VStr ` set h)" using 2 by (rule subset_insertI2)
    then show ?thesis using False \<open>make_row h r = _\<close> by simp
  qed
qed

lemma clean_row_id:
  assumes "\<forall>f \<in> set h. bom \<notin> set f" "VNone \<notin> keys (make_row h r)"
  shows "clean_row (make_row h r) = Inr (make_row h r)"
proof -
  have "\<forall>kv \<in> set (make_row h r). \<exists>s. fst kv = VStr s \<and> bom \<notin> set s"
  proof
    fix kv assume "kv \<in> set (make_row h r)"
    then have k: "fst kv \<in> keys (make_row h r)" by (simp add: keys_def)
    then have "fst kv \<in> VStr ` set h" using keys_make_row[of h r] assms(2) by auto
    then show "\<exists>s. fst kv = VStr s \<and> bom \<notin> set s" using assms(1) by auto
  qed
  then show ?thesis
    unfolding clean_row_def using clean_items_id[of "[]" "make_row h r"] distinct_make_row by simp
qed

lemma clean_rows_id:
  "\<forall>row \<in> set rows. clean_row row = Inr row \<Longrightarrow> clean_rows rows e = (rows, e)"
  by (induction rows) auto

lemma dict_reader_rows_clean:
  assumes "\<forall>l \<in> set lines. bom \<notin> set l"
    and "row \<in> set (fst (dict_reader lines))" "VNone \<notin> keys row"
  shows "clean_row row = Inr row"
proof (cases "csv_reader lines")
  case (Pair recs e)
  show ?thesis
  proof (cases recs)
    case Nil
    then show ?thesis using Pair assms(2) by (simp add: dict_reader_renamed_def dict_reader_def)
  next
    case (Cons names records)
    have nb: "\<forall>f \<in> set names. bom \<notin> set f"
    proof
      fix f assume f: "f \<in> set names"
      have "names \<in> set (fst (csv_reader lines))" using Pair Cons by simp
      then have "set f \<subseteq> \<Union> (set ` set lines)" using csv_reader_chars f by blast
      then show "bom \<notin> set f" using assms(1) by auto
    qed
    from assms(2) Pair Cons obtain r where "row = make_row names r"
      by (auto simp: dict_reader_renamed_def dict_reader_def)
    then show ?thesis using clean_row_id[OF nb] assms(3) by simp
  qed
qed

subsection \<open>The same rows from both sources\<close>

lemma dict_reader_file_lines:
  assumes "\<forall>l \<in> set ls. clean_line l"
  shows "dict_reader (file_lines (payload_of ls)) = dict_reader ls"
proof -
  have 1: "\<forall>l \<in> set ls. newline \<notin> set l \<and> carriage_return \<notin> set l"
    using assms by (auto simp: clean_line_def)
  have 2: "\<forall>l \<in> set ls. dquote \<notin> set l \<and> newline \<notin> set l \<and> carriage_return \<notin> set l"
    using assms by (auto simp: clean_line_def)
  show ?thesis
    unfolding dict_reader_def dict_reader_renamed_def csv_reader_def file_lines_def
      file_lines_payload[OF 1] read_records_newlines[OF 2] by (rule refl)
qed

lemma file_lines_no_bom:
  assumes "\<forall>l \<in> set ls. clean_line l"
  shows "\<forall>l \<in> set (file_lines (payload_of ls)). bom \<notin> set l"
proof -
  have 1: "\<forall>l \<in> set ls. newline \<notin> set l \<and> carriage_return \<notin> set l"
    using assms by (auto simp: clean_line_def)
  show ?thesis unfolding file_lines_def file_lines_payload[OF 1]
    using assms by (auto simp: clean_line_def)
qed

lemma rows_of_rtf_wrap:
  assumes "\<forall>l \<in> set ls. clean_line l"
  shows "rows_of_rtf_file (rtf_wrap (payload_of ls)) = dict_reader ls"
proof (cases ls)
  case Nil
  then show ?thesis
    using extract_wrap[OF assms]
    by (simp add: rows_of_rtf_file_def dict_reader_def dict_reader_renamed_def csv_reader_def
          parse_reset_def)
next
  case (Cons l ls')
  then show ?thesis using extract_wrap[OF assms] by (simp add: rows_of_rtf_file_def)
qed

text \<open>
  Claim C4, as amended. Take a payload whose lines are clean (not empty, trimmed, without
  backslash, brace, carriage return, quote or byte-order mark) and each end with a newline.
  Wrapped in a rich-text file and recovered, the dictionary reader yields the same rows, in
  the same order, as it yields on the lines of the plain file. The plain-file importer
  drops a leading byte-order mark, strips byte-order marks from the field names and cleans
  the keys of each row, which changes nothing on such a payload as long as no row has more
  cells than the header (no key \<open>None\<close>); then both importers see the same rows.
\<close>

theorem wrapped_payload_same_rows:
  "(\<forall>l \<in> set ls. clean_line l) \<longrightarrow>
     rows_of_rtf_file (rtf_wrap (payload_of ls)) = dict_reader (file_lines (payload_of ls)) \<and>
     ((\<forall>row \<in> set (fst (dict_reader (file_lines (payload_of ls)))). VNone \<notin> keys row) \<longrightarrow>
        rows_of_rtf_file (rtf_wrap (payload_of ls)) = rows_of_csv_file (payload_of ls))"
proof (intro impI conjI)
  assume a: "\<forall>l \<in> set ls. clean_line l"
  let ?lines = "file_lines (payload_of ls)"
  show 1: "rows_of_rtf_file (rtf_wrap (payload_of ls)) = dict_reader ?lines"
    using rows_of_rtf_wrap[OF a] dict_reader_file_lines[OF a] by simp
  assume b: "\<forall>row \<in> set (fst (dict_reader ?lines)). VNone \<notin> keys row"
  have nb: "\<forall>l \<in> set ?lines. bom \<notin> set l" using file_lines_no_bom[OF a] .
  obtain rows e where re: "dict_reader ?lines = (rows, e)" by (cases "dict_reader ?lines")
  have "\<forall>row \<in> set rows. clean_row row = Inr row"
    using dict_reader_rows_clean[OF nb] b re by simp
  then have "clean_rows rows e = (rows, e)" by (rule clean_rows_id)
  moreover have "dict_reader_renamed clean_fieldnames (file_lines (decode_utf8_sig (payload_of ls)))
                   = dict_reader ?lines"
    using dict_reader_renamed_plain[OF nb] decode_payload[OF a] by simp
  ultimately show "rows_of_rtf_file (rtf_wrap (payload_of ls)) = rows_of_csv_file (payload_of ls)"
    using 1 re by (simp add: rows_of_csv_file_def)
qed

theorem wrapped_payload_same_rows_witness:
  "clean_line ''h1,h2'' \<and> clean_line ''a,b'' \<and>
   rows_of_rtf_file (rtf_wrap (payload_of [''h1,h2'', ''a,b'']))
     = ([[(VStr ''h1'', VStr ''a''), (VStr ''h2'', VStr ''b'')]], None) \<and>
   rows_of_csv_file (payload_of [''h1,h2'', ''a,b''])
     = ([[(VStr ''h1'', VStr ''a''), (VStr ''h2'', VStr ''b'')]], None)"
proof -
  let ?ls = "[''h1,h2'', ''a,b'']"
  have c: "clean_line ''h1,h2''" "clean_line ''a,b''" by code_simp+
  then have h1: "\<forall>l \<in> set ?ls. clean_line l" by simp
  have d: "dict_reader (file_lines (payload_of ?ls))
             = ([[(VStr ''h1'', VStr ''a''), (VStr ''h2'', VStr ''b'')]], None)"
    by code_simp
  have h2: "\<forall>row \<in> set (fst (dict_reader (file_lines (payload_of ?ls)))). VNone \<notin> keys row"
    unfolding d by (simp add: keys_def)
  from wrapped_payload_same_rows[of ?ls] h1 h2
  have "rows_of_rtf_file (rtf_wrap (payload_of ?ls)) = dict_reader (file_lines (payload_of ?ls))"
    and "rows_of_rtf_file (rtf_wrap (payload_of ?ls)) = rows_of_csv_file (payload_of ?ls)"
    by blast+
  then show ?thesis using c d by simp
qed


text \<open>
  Claim C4 as stated, for any payload, fails: the recovery trims every line, so a cell with
  a leading blank loses it; the run of literal text ends at the first closing brace, so a
  cell with a brace is cut; only the plain-file importer removes byte-order marks, so a
  payload that starts with one gets different field names from the two importers; and a row
  longer than the header is a dictionary with the key \<open>None\<close> for the rich-text importer
  and an \<open>AttributeError\<close> for the plain-file importer.
\<close>

theorem wrapped_payload_counterexample:
  "rows_of_rtf_file (rtf_wrap (''h'' @ [newline] @ '' a'' @ [newline]))
     = ([[(VStr ''h'', VStr ''a'')]], None) \<and>
   rows_of_csv_file (''h'' @ [newline] @ '' a'' @ [newline])
     = ([[(VStr ''h'', VStr '' a'')]], None) \<and>
   rows_of_rtf_file (rtf_wrap (''h'' @ [newline] @ ''a}b'' @ [newline]))
     = ([[(VStr ''h'', VStr ''a'')]], None) \<and>
   rows_of_csv_file (''h'' @ [newline] @ ''a}b'' @ [newline])
     = ([[(VStr ''h'', VStr ''a}b'')]], None) \<and>
   rows_of_rtf_file (rtf_wrap (bom # ''h'' @ [newline] @ ''a'' @ [newline]))
     = ([[(VStr (bom # ''h''), VStr ''a'')]], None) \<and>
   rows_of_csv_file (bom # ''h'' @ [newline] @ ''a'' @ [newline])
     = ([[(VStr ''h'', VStr ''a'')]], None) \<and>
   rows_of_rtf_file (rtf_wrap (''h'' @ [newline] @ ''a,b'' @ [newline]))
     = ([[(VStr ''h'', VStr ''a''), (VNone, VList [VStr ''b''])]], None) \<and>
   rows_of_csv_file (''h'' @ [newline] @ ''a,b'' @ [newline])
     = ([], Some AttributeError)"
  by code_simp

end
